theory Spec2Isabelle
  imports Main "HOL-Library.AList"
begin

text \<open>
  The plugin \<open>ServerlessApiCloudFrontPlugin\<close> (\<open>index.js\<close>) loads a CloudFormation
  template with one CloudFront distribution, rewrites the distribution config from the
  settings under \<open>custom.apiCloudFront\<close>, and merges the result into the template that
  the framework has compiled. This theory embeds \<open>createDeploymentArtifacts\<close>,
  \<open>prepareResources\<close>, the fourteen \<open>prepare...\<close> methods and \<open>getConfig\<close> as functions
  on JavaScript values, and proves the properties C1 to C10 of them. \<open>printSummary\<close>,
  which only prints, is not part of it.
\<close>

section \<open>JavaScript values\<close>

text \<open>
  The plugin works on what a YAML document of nulls, booleans, numbers, strings,
  sequences and mappings loads to: \<open>null\<close>, booleans, numbers, strings, arrays and plain
  objects, plus JavaScript's \<open>undefined\<close>. An object is an association list in the
  enumeration order of its own properties (\<open>Object.entries\<close>, \<open>_.toPairs\<close> and
  \<open>_.head\<close> in the source depend on that order). Numbers are integers: the source only
  tests them for truthiness and equality.
\<close>

datatype jsval =
    JUndef
  | JNull
  | JBool bool
  | JNum int
  | JStr string
  | JArr "jsval list"
  | JObj "(string \<times> jsval) list"

text \<open>
  \<open>TypeError\<close> is the exception that JavaScript raises on a property access on
  \<open>undefined\<close> or \<open>null\<close>, on a property write to a primitive (the class body is strict
  mode code) and on a call of something that is not a function. \<open>Unmodelled\<close> marks
  the runs that leave the value type above: a named property stored on an array, an array
  index written beyond the end (a hole), a new array-index key added to an object (which
  JavaScript enumerates before the other keys), and a primitive wrapped by \<open>Object(...)\<close>.
\<close>

datatype error = TypeError | Unmodelled

definition thenE :: "error + 'a \<Rightarrow> ('a \<Rightarrow> error + 'b) \<Rightarrow> error + 'b" where
  "thenE m f = (case m of Inl e \<Rightarrow> Inl e | Inr x \<Rightarrow> f x)"

fun runRules :: "('a \<Rightarrow> error + 'a) list \<Rightarrow> 'a \<Rightarrow> error + 'a" where
  "runRules [] x = Inr x"
| "runRules (r # rs) x = thenE (r x) (runRules rs)"

definition truthy :: "jsval \<Rightarrow> bool" where
  "truthy v = (case v of
      JUndef \<Rightarrow> False
    | JNull \<Rightarrow> False
    | JBool b \<Rightarrow> b
    | JNum n \<Rightarrow> n \<noteq> 0
    | JStr s \<Rightarrow> s \<noteq> []
    | JArr xs \<Rightarrow> True
    | JObj kvs \<Rightarrow> True)"

text \<open>\<open>Array.isArray\<close>, and lodash's \<open>isObject\<close> (arrays and objects, not \<open>null\<close>).\<close>

definition isArray :: "jsval \<Rightarrow> bool" where
  "isArray v = (case v of JArr xs \<Rightarrow> True | _ \<Rightarrow> False)"

definition isObject :: "jsval \<Rightarrow> bool" where
  "isObject v = (case v of JArr xs \<Rightarrow> True | JObj kvs \<Rightarrow> True | _ \<Rightarrow> False)"

subsection \<open>Property keys\<close>

text \<open>
  A property key is a string. On an array (and on a string) a key that is the canonical
  decimal form of an integer below \<open>2^32 - 1\<close> is an index; \<open>parse_index\<close> recognises
  those keys and \<open>dec\<close> writes an index as its key.
\<close>

definition is_digit :: "char \<Rightarrow> bool" where
  "is_digit c = (c \<in> set ''0123456789'')"

definition digit_val :: "char \<Rightarrow> nat" where
  "digit_val c = of_char c - 48"

definition parse_index :: "string \<Rightarrow> nat option" where
  "parse_index s =
     (if s = ''0'' then Some 0
      else if s \<noteq> [] \<and> hd s \<noteq> CHR ''0'' \<and> list_all is_digit s then
        (let n = foldl (\<lambda>a c. 10 * a + digit_val c) 0 s
         in if n < 4294967295 then Some n else None)
      else None)"

fun dec :: "nat \<Rightarrow> string" where
  "dec n = (if n < 10 then [char_of (48 + n)] else dec (n div 10) @ [char_of (48 + n mod 10)])"

declare dec.simps [simp del]

subsection \<open>Reading, writing and deleting a property\<close>

definition lookup :: "(string \<times> jsval) list \<Rightarrow> string \<Rightarrow> jsval" where
  "lookup kvs k = (case map_of kvs k of None \<Rightarrow> JUndef | Some v \<Rightarrow> v)"

text \<open>
  \<open>getProp v k\<close> is the read \<open>v[k]\<close>. Keys that name inherited members
  (\<open>constructor\<close>, \<open>toString\<close>, \<open>map\<close>, ...) are not modelled as such: the source reads
  none of them as data.
\<close>

fun getProp :: "jsval \<Rightarrow> string \<Rightarrow> error + jsval" where
  "getProp JUndef k = Inl TypeError"
| "getProp JNull k = Inl TypeError"
| "getProp (JObj kvs) k = Inr (lookup kvs k)"
| "getProp (JArr xs) k =
     Inr (case parse_index k of
            Some i \<Rightarrow> if i < length xs then xs ! i else JUndef
          | None \<Rightarrow> if k = ''length'' then JNum (int (length xs)) else JUndef)"
| "getProp (JStr s) k =
     Inr (case parse_index k of
            Some i \<Rightarrow> if i < length s then JStr [s ! i] else JUndef
          | None \<Rightarrow> if k = ''length'' then JNum (int (length s)) else JUndef)"
| "getProp (JBool b) k = Inr JUndef"
| "getProp (JNum n) k = Inr JUndef"

text \<open>\<open>k in v\<close> for an object or an array.\<close>

definition hasKey :: "jsval \<Rightarrow> string \<Rightarrow> bool" where
  "hasKey v k = (case v of
      JObj kvs \<Rightarrow> map_of kvs k \<noteq> None
    | JArr xs \<Rightarrow> (case parse_index k of Some i \<Rightarrow> i < length xs | None \<Rightarrow> k = ''length'')
    | _ \<Rightarrow> False)"

text \<open>
  \<open>setProp v k x\<close> is the assignment \<open>v[k] = x\<close> in strict mode, returning the updated
  \<open>v\<close>. On an object an existing key keeps its place and a new key goes to the end.
\<close>

fun setProp :: "jsval \<Rightarrow> string \<Rightarrow> jsval \<Rightarrow> error + jsval" where
  "setProp (JObj kvs) k x =
     (if map_of kvs k = None \<and> parse_index k \<noteq> None then Inl Unmodelled
      else Inr (JObj (AList.update k x kvs)))"
| "setProp (JArr xs) k x =
     (case parse_index k of
        Some i \<Rightarrow> if i < length xs then Inr (JArr (xs[i := x]))
                  else if i = length xs then Inr (JArr (xs @ [x]))
                  else Inl Unmodelled
      | None \<Rightarrow> Inl Unmodelled)"
| "setProp v k x = Inl TypeError"

text \<open>\<open>delete v[k]\<close> for a key that is neither an index nor \<open>length\<close>.\<close>

fun deleteProp :: "jsval \<Rightarrow> string \<Rightarrow> error + jsval" where
  "deleteProp JUndef k = Inl TypeError"
| "deleteProp JNull k = Inl TypeError"
| "deleteProp (JObj kvs) k = Inr (JObj (AList.delete k kvs))"
| "deleteProp v k = Inr v"

text \<open>
  \<open>getPath v [k1, ..., kn]\<close> is the read \<open>v[k1]...[kn]\<close>, and \<open>setPath v [k1, ..., kn] x\<close>
  the assignment \<open>v[k1]...[kn] = x\<close>: the source mutates the object reached through
  \<open>k1 ... k(n-1)\<close> in place, the model rebuilds the spine above it.
\<close>

fun getPath :: "jsval \<Rightarrow> string list \<Rightarrow> error + jsval" where
  "getPath v [] = Inr v"
| "getPath v (k # ks) = thenE (getProp v k) (\<lambda>c. getPath c ks)"

fun setPath :: "jsval \<Rightarrow> string list \<Rightarrow> jsval \<Rightarrow> error + jsval" where
  "setPath v [] x = Inr x"
| "setPath v [k] x = setProp v k x"
| "setPath v (k # ks) x =
     thenE (getProp v k) (\<lambda>c. thenE (setPath c ks x) (\<lambda>c'. setProp v k c'))"

section \<open>The lodash functions the plugin calls\<close>

text \<open>
  lodash is a library that the plugin requires. Its functions are written here after
  their implementation in lodash 4 (\<open>baseGet\<close>, \<open>baseZipObject\<close>, \<open>baseMerge\<close>,
  \<open>baseMergeDeep\<close>, \<open>assignMergeValue\<close>), on the values above.
\<close>

text \<open>
  \<open>_.get(object, path, defaultValue)\<close>: \<open>baseGet\<close> follows the path while the value
  reached is neither \<open>undefined\<close> nor \<open>null\<close>; the default replaces an \<open>undefined\<close>
  result only. The path is given as its list of segments.
\<close>

fun baseGet :: "jsval \<Rightarrow> string list \<Rightarrow> jsval" where
  "baseGet v [] = v"
| "baseGet v (k # ks) = (case getProp v k of Inl e \<Rightarrow> JUndef | Inr c \<Rightarrow> baseGet c ks)"

definition lodash_get :: "jsval \<Rightarrow> string list \<Rightarrow> jsval \<Rightarrow> jsval" where
  "lodash_get object path defaultValue =
     (let result = (if path = [] then JUndef else baseGet object path)
      in if result = JUndef then defaultValue else result)"

text \<open>\<open>_.head(array)\<close> is \<open>(array && array.length) ? array[0] : undefined\<close>.\<close>

definition lodash_head :: "jsval \<Rightarrow> jsval" where
  "lodash_head array =
     (if truthy array \<and> truthy (baseGet array [''length'']) then baseGet array [''0'']
      else JUndef)"

text \<open>
  The own enumerable string-keyed properties of a value, in order: what \<open>_.toPairs\<close>
  and \<open>Object.entries\<close> enumerate.
\<close>

definition entries :: "jsval \<Rightarrow> (string \<times> jsval) list" where
  "entries v = (case v of
      JObj kvs \<Rightarrow> kvs
    | JArr xs \<Rightarrow> zip (map dec [0 ..< length xs]) xs
    | JStr s \<Rightarrow> zip (map dec [0 ..< length s]) (map (\<lambda>c. JStr [c]) s)
    | _ \<Rightarrow> [])"

definition lodash_toPairs :: "jsval \<Rightarrow> jsval" where
  "lodash_toPairs v = JArr (map (\<lambda>(k, x). JArr [JStr k, x]) (entries v))"

text \<open>
  \<open>_.zipObject(props, values)\<close> assigns \<open>values[i]\<close> (or \<open>undefined\<close>) to \<open>props[i]\<close>;
  \<open>values || []\<close> is an array or \<open>undefined\<close> where the plugin calls it.
\<close>

fun baseZipObject ::
  "string list \<Rightarrow> jsval list \<Rightarrow> (string \<times> jsval) list \<Rightarrow> (string \<times> jsval) list" where
  "baseZipObject [] vs acc = acc"
| "baseZipObject (k # ks) vs acc =
     baseZipObject ks (tl vs) (AList.update k (case vs of [] \<Rightarrow> JUndef | x # _ \<Rightarrow> x) acc)"

definition lodash_zipObject :: "string list \<Rightarrow> jsval \<Rightarrow> jsval" where
  "lodash_zipObject props vals =
     JObj (baseZipObject props (case vals of JArr xs \<Rightarrow> xs | _ \<Rightarrow> []) [])"

text \<open>\<open>v.map(f)\<close>: only an array has a \<open>map\<close> method.\<close>

definition array_map :: "(jsval \<Rightarrow> jsval) \<Rightarrow> jsval \<Rightarrow> error + jsval" where
  "array_map f v = (case v of JArr xs \<Rightarrow> Inr (JArr (map f xs)) | _ \<Rightarrow> Inl TypeError)"

section \<open>The plugin\<close>

text \<open>
  What the plugin reads from its host: \<open>this.serverless.service.custom\<close>,
  \<open>this.serverless.service.provider.tags\<close>,
  \<open>this.serverless.service.provider.compiledCloudFormationTemplate\<close>,
  \<open>this.options.stage\<close> and the result of
  \<open>this.serverless.getProvider('aws').naming.getApiGatewayName()\<close>. The stage and the
  name are strings: the source puts them into template literals. The template of
  \<open>resources.yml\<close> is a parameter of \<open>prepareResources\<close> and
  \<open>createDeploymentArtifacts\<close>.
\<close>

record plugin =
  custom :: jsval
  tags :: jsval
  compiledCloudFormationTemplate :: jsval
  stage :: string
  apiGatewayName :: string

text \<open>
  \<open>getConfig(field, defaultValue)\<close> reads \<open>service.custom.apiCloudFront.<field>\<close>; the
  field is given as its dot-separated segments.
\<close>

definition getConfig :: "plugin \<Rightarrow> string list \<Rightarrow> jsval \<Rightarrow> jsval" where
  "getConfig p field defaultValue = lodash_get (custom p) (''apiCloudFront'' # field) defaultValue"

definition prepareLogging :: "plugin \<Rightarrow> jsval \<Rightarrow> error + jsval" where
  "prepareLogging p distributionConfig =
     (let loggingBucket = getConfig p [''logging'', ''bucket''] JNull in
      if loggingBucket \<noteq> JNull then
        thenE (setPath distributionConfig [''Logging'', ''Bucket''] loggingBucket) (\<lambda>dc.
          setPath dc [''Logging'', ''Prefix''] (getConfig p [''logging'', ''prefix''] (JStr [])))
      else deleteProp distributionConfig ''Logging'')"

definition domainName :: "jsval \<Rightarrow> jsval" where
  "domainName httpApi =
     JObj [(''Fn::Join'',
       JArr [JStr [],
         JArr [JObj [(''Ref'', JStr (if truthy httpApi then ''HttpApi'' else ''ApiGatewayRestApi''))],
               JStr ''.execute-api.'',
               JObj [(''Ref'', JStr ''AWS::Region'')],
               JStr ''.amazonaws.com'']])]"

definition prepareDomain :: "plugin \<Rightarrow> jsval \<Rightarrow> error + jsval" where
  "prepareDomain p distributionConfig =
     (let domain = getConfig p [''domain''] JNull;
          httpApi = getConfig p [''httpApi''] (JBool False) in
      thenE (if domain \<noteq> JNull
             then setProp distributionConfig ''Aliases'' (if isArray domain then domain else JArr [domain])
             else deleteProp distributionConfig ''Aliases'') (\<lambda>dc.
        setPath dc [''Origins'', ''0'', ''DomainName''] (domainName httpApi)))"

definition preparePriceClass :: "plugin \<Rightarrow> jsval \<Rightarrow> error + jsval" where
  "preparePriceClass p distributionConfig =
     (let priceClass = getConfig p [''priceClass''] (JStr ''PriceClass_All'') in
      setProp distributionConfig ''PriceClass'' priceClass)"

text \<open>
  In \<open>prepareOrigins\<close> the variable \<open>origin\<close> is \<open>_.head(distributionConfig.Origins)\<close>.
  When that is an object it is the very object \<open>distributionConfig.Origins[0]\<close>, so the two
  writes through \<open>origin\<close> are writes at \<open>Origins[0]\<close>; when it is \<open>undefined\<close> or a
  primitive the first write raises.
\<close>

definition customHeader :: "jsval \<Rightarrow> jsval" where
  "customHeader h = lodash_zipObject [''HeaderName'', ''HeaderValue''] (lodash_head (lodash_toPairs h))"

definition prepareOrigins :: "plugin \<Rightarrow> jsval \<Rightarrow> error + jsval" where
  "prepareOrigins p distributionConfig =
     thenE (getProp distributionConfig ''Origins'') (\<lambda>origins.
       (let origin = lodash_head origins;
            originCustomHeaders = getConfig p [''originCustomHeaders''] (JArr []) in
        thenE (array_map customHeader originCustomHeaders) (\<lambda>headers.
          if \<not> isObject origin then Inl TypeError
          else
            thenE (setPath distributionConfig [''Origins'', ''0'', ''OriginCustomHeaders''] headers) (\<lambda>dc.
            thenE (setPath dc [''Origins'', ''0'', ''OriginPath''] (JStr (''/'' @ stage p))) (\<lambda>dc.
              (let httpApi = getConfig p [''httpApi''] (JBool False) in
               setPath dc [''Origins'', ''0'', ''OriginPath'']
                 (if truthy httpApi then JStr [] else JStr (''/'' @ stage p))))))))"

definition prepareCookies :: "plugin \<Rightarrow> jsval \<Rightarrow> error + jsval" where
  "prepareCookies p distributionConfig =
     (let forwardCookies = getConfig p [''cookies''] (JStr ''all'') in
      thenE (setPath distributionConfig [''DefaultCacheBehavior'', ''ForwardedValues'', ''Cookies'', ''Forward'']
               (if isArray forwardCookies then JStr ''whitelist'' else forwardCookies)) (\<lambda>dc.
        if isArray forwardCookies
        then setPath dc [''DefaultCacheBehavior'', ''ForwardedValues'', ''Cookies'', ''WhitelistedNames'']
               forwardCookies
        else Inr dc))"

definition prepareHeaders :: "plugin \<Rightarrow> jsval \<Rightarrow> error + jsval" where
  "prepareHeaders p distributionConfig =
     (let forwardHeaders = getConfig p [''headers''] (JStr ''none'') in
      if isArray forwardHeaders
      then setPath distributionConfig [''DefaultCacheBehavior'', ''ForwardedValues'', ''Headers''] forwardHeaders
      else setPath distributionConfig [''DefaultCacheBehavior'', ''ForwardedValues'', ''Headers'']
             (if forwardHeaders = JStr ''none'' then JArr [] else JArr [JStr ''*'']))"

definition preparePolicies :: "plugin \<Rightarrow> jsval \<Rightarrow> error + jsval" where
  "preparePolicies p distributionConfig =
     (let cachePolicyId = getConfig p [''cachePolicyId''] JNull in
      thenE (if truthy cachePolicyId
             then setPath distributionConfig [''DefaultCacheBehavior'', ''CachePolicyId''] cachePolicyId
             else Inr distributionConfig) (\<lambda>dc.
        (let originRequestPolicyId = getConfig p [''originRequestPolicyId''] JNull in
         if truthy originRequestPolicyId
         then setPath dc [''DefaultCacheBehavior'', ''OriginRequestPolicyId''] originRequestPolicyId
         else Inr dc)))"

definition prepareTTL :: "plugin \<Rightarrow> jsval \<Rightarrow> error + jsval" where
  "prepareTTL p distributionConfig =
     (let ttl = getConfig p [''ttl''] JNull in
      if truthy ttl then
        thenE (setPath distributionConfig [''DefaultCacheBehavior'', ''DefaultTTL''] (baseGet ttl [''default''])) (\<lambda>dc.
        thenE (setPath dc [''DefaultCacheBehavior'', ''MaxTTL''] (baseGet ttl [''max''])) (\<lambda>dc.
          setPath dc [''DefaultCacheBehavior'', ''MinTTL''] (baseGet ttl [''min''])))
      else Inr distributionConfig)"

definition prepareQueryString :: "plugin \<Rightarrow> jsval \<Rightarrow> error + jsval" where
  "prepareQueryString p distributionConfig =
     (let forwardQueryString = getConfig p [''querystring''] (JStr ''all'') in
      if isArray forwardQueryString then
        thenE (setPath distributionConfig [''DefaultCacheBehavior'', ''ForwardedValues'', ''QueryString'']
                 (JBool True)) (\<lambda>dc.
          setPath dc [''DefaultCacheBehavior'', ''ForwardedValues'', ''QueryStringCacheKeys'']
            forwardQueryString)
      else setPath distributionConfig [''DefaultCacheBehavior'', ''ForwardedValues'', ''QueryString'']
             (JBool (forwardQueryString = JStr ''all'')))"

definition prepareComment :: "plugin \<Rightarrow> jsval \<Rightarrow> error + jsval" where
  "prepareComment p distributionConfig =
     (let name = apiGatewayName p in
      setProp distributionConfig ''Comment'' (JStr (''Serverless Managed '' @ name)))"

definition prepareCertificate :: "plugin \<Rightarrow> jsval \<Rightarrow> error + jsval" where
  "prepareCertificate p distributionConfig =
     (let certificate = getConfig p [''certificate''] JNull in
      if certificate \<noteq> JNull
      then setPath distributionConfig [''ViewerCertificate'', ''AcmCertificateArn''] certificate
      else deleteProp distributionConfig ''ViewerCertificate'')"

definition prepareWaf :: "plugin \<Rightarrow> jsval \<Rightarrow> error + jsval" where
  "prepareWaf p distributionConfig =
     (let waf = getConfig p [''waf''] JNull in
      if waf \<noteq> JNull
      then setProp distributionConfig ''WebACLId'' waf
      else deleteProp distributionConfig ''WebACLId'')"

definition prepareCompress :: "plugin \<Rightarrow> jsval \<Rightarrow> error + jsval" where
  "prepareCompress p distributionConfig =
     setPath distributionConfig [''DefaultCacheBehavior'', ''Compress'']
       (JBool (getConfig p [''compress''] (JBool False) = JBool True))"

definition prepareMinimumProtocolVersion :: "plugin \<Rightarrow> jsval \<Rightarrow> error + jsval" where
  "prepareMinimumProtocolVersion p distributionConfig =
     (let minimumProtocolVersion = getConfig p [''minimumProtocolVersion''] JUndef in
      if truthy minimumProtocolVersion
      then setPath distributionConfig [''ViewerCertificate'', ''MinimumProtocolVersion'']
             minimumProtocolVersion
      else Inr distributionConfig)"

text \<open>
  \<open>prepareResources\<close> runs the fourteen methods on
  \<open>resources.Resources.ApiDistribution.Properties.DistributionConfig\<close>, in the order of
  the source. The source mutates that object in place; the model stores the result back
  at its path, which rewrites the spine of objects that the read went through.
\<close>

definition distributionConfigPath :: "string list" where
  "distributionConfigPath = [''Resources'', ''ApiDistribution'', ''Properties'', ''DistributionConfig'']"

definition rules :: "plugin \<Rightarrow> (jsval \<Rightarrow> error + jsval) list" where
  "rules p =
     [prepareLogging p, prepareDomain p, preparePriceClass p, prepareOrigins p,
      prepareCookies p, prepareHeaders p, prepareTTL p, preparePolicies p,
      prepareQueryString p, prepareComment p, prepareCertificate p, prepareWaf p,
      prepareCompress p, prepareMinimumProtocolVersion p]"

definition prepareResources :: "plugin \<Rightarrow> jsval \<Rightarrow> error + jsval" where
  "prepareResources p resources =
     thenE (getPath resources distributionConfigPath) (\<lambda>distributionConfig.
     thenE (runRules (rules p) distributionConfig) (\<lambda>dc.
       setPath resources distributionConfigPath dc))"

subsection \<open>The merge into the caller's template\<close>

text \<open>
  \<open>_.merge(object, source)\<close> of lodash 4 on these values. \<open>baseMerge\<close> visits the keys
  of the source in order. A source value that is an array or an object is merged into
  \<open>mergeTarget\<close> (the value the target holds at that key when that is an array or an
  object of the fitting kind, a fresh \<open>[]\<close> or \<open>{}\<close> otherwise) and the result is stored
  at the key; any other source value goes through \<open>assignMergeValue\<close>, which skips an
  \<open>undefined\<close> value when the target has the key. For a source array the target is an
  array as well, and the loop over the indices \<open>0, 1, ...\<close> is written as a recursion
  over the two lists of elements.
\<close>

definition assignMergeValue :: "jsval \<Rightarrow> string \<Rightarrow> jsval \<Rightarrow> error + jsval" where
  "assignMergeValue object key v =
     (if (v \<noteq> JUndef \<and> getProp object key = Inr v) \<or> (v = JUndef \<and> hasKey object key)
      then Inr object
      else setProp object key v)"

definition isArrayLikeObject :: "jsval \<Rightarrow> bool" where
  "isArrayLikeObject v = (case v of
      JArr xs \<Rightarrow> True
    | JObj kvs \<Rightarrow> (case lookup kvs ''length'' of
                     JNum n \<Rightarrow> 0 \<le> n \<and> n \<le> 9007199254740991
                   | _ \<Rightarrow> False)
    | _ \<Rightarrow> False)"

definition copyArray :: "jsval \<Rightarrow> jsval" where
  "copyArray v = (case v of
      JObj kvs \<Rightarrow> (case lookup kvs ''length'' of
                     JNum n \<Rightarrow> JArr (map (\<lambda>i. lookup kvs (dec i)) [0 ..< nat n])
                   | _ \<Rightarrow> JArr [])
    | _ \<Rightarrow> v)"

definition mergeTarget :: "jsval \<Rightarrow> jsval \<Rightarrow> jsval" where
  "mergeTarget objValue srcValue =
     (if isArray srcValue then
        (if isArray objValue then objValue
         else if isArrayLikeObject objValue then copyArray objValue
         else JArr [])
      else
        (if isObject objValue then objValue else JObj []))"

fun baseMerge :: "jsval \<Rightarrow> jsval \<Rightarrow> error + jsval"
  and baseMergeProps :: "jsval \<Rightarrow> (string \<times> jsval) list \<Rightarrow> error + jsval"
  and baseMergeElems :: "jsval list \<Rightarrow> jsval list \<Rightarrow> error + jsval list"
where
  "baseMerge object (JObj kvs) = baseMergeProps object kvs"
| "baseMerge object (JArr xs) =
     (case object of
        JArr ts \<Rightarrow> (case baseMergeElems ts xs of Inl e \<Rightarrow> Inl e | Inr ys \<Rightarrow> Inr (JArr ys))
      | _ \<Rightarrow> Inl Unmodelled)"
| "baseMerge object (JStr s) = (if s = [] then Inr object else Inl Unmodelled)"
| "baseMerge object source = Inr object"
| "baseMergeProps object [] = Inr object"
| "baseMergeProps object ((key, srcValue) # rest) =
     thenE (if isObject srcValue
            then thenE (baseMerge (mergeTarget (baseGet object [key]) srcValue) srcValue)
                   (\<lambda>newValue. setProp object key newValue)
            else assignMergeValue object key srcValue)
       (\<lambda>object'. baseMergeProps object' rest)"
| "baseMergeElems ts [] = Inr ts"
| "baseMergeElems ts (srcValue # rest) =
     thenE (if isObject srcValue
            then baseMerge (mergeTarget (case ts of [] \<Rightarrow> JUndef | t # _ \<Rightarrow> t) srcValue) srcValue
            else Inr (case ts of [] \<Rightarrow> srcValue
                      | t # _ \<Rightarrow> if srcValue = JUndef then t else srcValue))
       (\<lambda>newValue. thenE (baseMergeElems (tl ts) rest) (\<lambda>ys. Inr (newValue # ys)))"

text \<open>
  The assigner behind \<open>_.merge\<close>: the target is \<open>Object(object)\<close>, and a falsy source is
  skipped.
\<close>

definition lodash_merge :: "jsval \<Rightarrow> jsval \<Rightarrow> error + jsval" where
  "lodash_merge object source =
     thenE (if object = JUndef \<or> object = JNull then Inr (JObj [])
            else if isObject object then Inr object
            else Inl Unmodelled) (\<lambda>object'.
       if truthy source then baseMerge object' source else Inr object')"

text \<open>
  \<open>createDeploymentArtifacts\<close>, with the object that \<open>yaml.safeLoad\<close> returns for
  \<open>resources.yml\<close> as the parameter \<open>resources\<close>.
\<close>

definition tagList :: "jsval \<Rightarrow> jsval" where
  "tagList t = JArr (map (\<lambda>x. JObj [(''Key'', JStr (fst x)), (''Value'', snd x)]) (entries t))"

definition createDeploymentArtifacts :: "plugin \<Rightarrow> jsval \<Rightarrow> error + jsval" where
  "createDeploymentArtifacts p resources =
     (let baseResources = compiledCloudFormationTemplate p in
      thenE (prepareResources p resources) (\<lambda>resources.
      thenE (if truthy (tags p)
             then setPath resources [''Resources'', ''ApiDistribution'', ''Properties'', ''Tags'']
                    (tagList (tags p))
             else Inr resources) (\<lambda>resources.
        lodash_merge baseResources resources)))"

section \<open>Notions used to state the properties\<close>

text \<open>
  \<open>config p field\<close> is what the configuration map \<open>service.custom.apiCloudFront\<close>
  holds at a field: \<open>undefined\<close> when the field (or the map) is absent.
\<close>

definition config :: "plugin \<Rightarrow> string list \<Rightarrow> jsval" where
  "config p field = baseGet (custom p) (''apiCloudFront'' # field)"

text \<open>
  \<open>hasPath v [k1, ..., kn]\<close>: the value \<open>v[k1]...[k(n-1)]\<close> can be read and has the key
  \<open>kn\<close>.
\<close>

fun hasPath :: "jsval \<Rightarrow> string list \<Rightarrow> bool" where
  "hasPath v [] = True"
| "hasPath v [k] = hasKey v k"
| "hasPath v (k # ks) = (case getProp v k of Inl e \<Rightarrow> False | Inr c \<Rightarrow> hasPath c ks)"

text \<open>
  Two paths diverge when, after a common prefix, they continue with keys that name
  different properties of every object and array; then neither path leads into the
  value that the other one names.
\<close>

definition apart :: "string \<Rightarrow> string \<Rightarrow> bool" where
  "apart a b = (a \<noteq> b \<and> b \<noteq> ''length'' \<and> (parse_index a = None \<or> parse_index a \<noteq> parse_index b))"

fun diverge :: "string list \<Rightarrow> string list \<Rightarrow> bool" where
  "diverge (a # as) (b # bs) = (if a = b then diverge as bs else apart a b)"
| "diverge as bs = False"

text \<open>The places inside the distribution config that the fourteen methods write or delete.\<close>

definition written :: "string list list" where
  "written =
     [[''Logging''],
      [''Aliases''],
      [''Origins'', ''0'', ''DomainName''],
      [''PriceClass''],
      [''Origins'', ''0'', ''OriginCustomHeaders''],
      [''Origins'', ''0'', ''OriginPath''],
      [''DefaultCacheBehavior'', ''ForwardedValues'', ''Cookies'', ''Forward''],
      [''DefaultCacheBehavior'', ''ForwardedValues'', ''Cookies'', ''WhitelistedNames''],
      [''DefaultCacheBehavior'', ''ForwardedValues'', ''Headers''],
      [''DefaultCacheBehavior'', ''DefaultTTL''],
      [''DefaultCacheBehavior'', ''MaxTTL''],
      [''DefaultCacheBehavior'', ''MinTTL''],
      [''DefaultCacheBehavior'', ''CachePolicyId''],
      [''DefaultCacheBehavior'', ''OriginRequestPolicyId''],
      [''DefaultCacheBehavior'', ''ForwardedValues'', ''QueryString''],
      [''DefaultCacheBehavior'', ''ForwardedValues'', ''QueryStringCacheKeys''],
      [''Comment''],
      [''ViewerCertificate''],
      [''WebACLId''],
      [''DefaultCacheBehavior'', ''Compress'']]"

text \<open>
  The places that each of the fourteen methods names under a given configuration map, in
  the order of \<open>rules\<close>: the paths that the method assigns or deletes in the branch that
  the configuration selects. A method whose condition is not met names no place at all.
\<close>

definition rulePlaces :: "plugin \<Rightarrow> string list list list" where
  "rulePlaces p =
     [if getConfig p [''logging'', ''bucket''] JNull \<noteq> JNull
      then [[''Logging'', ''Bucket''], [''Logging'', ''Prefix'']] else [[''Logging'']],
      [[''Aliases''], [''Origins'', ''0'', ''DomainName'']],
      [[''PriceClass'']],
      [[''Origins'', ''0'', ''OriginCustomHeaders''], [''Origins'', ''0'', ''OriginPath'']],
      [''DefaultCacheBehavior'', ''ForwardedValues'', ''Cookies'', ''Forward''] #
        (if isArray (getConfig p [''cookies''] (JStr ''all''))
         then [[''DefaultCacheBehavior'', ''ForwardedValues'', ''Cookies'', ''WhitelistedNames'']]
         else []),
      [[''DefaultCacheBehavior'', ''ForwardedValues'', ''Headers'']],
      if truthy (getConfig p [''ttl''] JNull)
      then [[''DefaultCacheBehavior'', ''DefaultTTL''], [''DefaultCacheBehavior'', ''MaxTTL''],
            [''DefaultCacheBehavior'', ''MinTTL'']]
      else [],
      (if truthy (getConfig p [''cachePolicyId''] JNull)
       then [[''DefaultCacheBehavior'', ''CachePolicyId'']] else []) @
      (if truthy (getConfig p [''originRequestPolicyId''] JNull)
       then [[''DefaultCacheBehavior'', ''OriginRequestPolicyId'']] else []),
      [''DefaultCacheBehavior'', ''ForwardedValues'', ''QueryString''] #
        (if isArray (getConfig p [''querystring''] (JStr ''all''))
         then [[''DefaultCacheBehavior'', ''ForwardedValues'', ''QueryStringCacheKeys'']]
         else []),
      [[''Comment'']],
      if getConfig p [''certificate''] JNull \<noteq> JNull
      then [[''ViewerCertificate'', ''AcmCertificateArn'']] else [[''ViewerCertificate'']],
      [[''WebACLId'']],
      [[''DefaultCacheBehavior'', ''Compress'']],
      if truthy (getConfig p [''minimumProtocolVersion''] JUndef)
      then [[''ViewerCertificate'', ''MinimumProtocolVersion'']] else []]"

text \<open>
  The fourteen rules in the order in which section 4.2 of the specification lists them
  (Policies before TTL), for comparison with \<open>rules\<close>, the order of the source.
\<close>

definition rules_spec_order :: "plugin \<Rightarrow> (jsval \<Rightarrow> error + jsval) list" where
  "rules_spec_order p =
     [prepareLogging p, prepareDomain p, preparePriceClass p, prepareOrigins p,
      prepareCookies p, prepareHeaders p, preparePolicies p, prepareTTL p,
      prepareQueryString p, prepareComment p, prepareCertificate p, prepareWaf p,
      prepareCompress p, prepareMinimumProtocolVersion p]"

definition prepareResources_spec_order :: "plugin \<Rightarrow> jsval \<Rightarrow> error + jsval" where
  "prepareResources_spec_order p resources =
     thenE (getPath resources distributionConfigPath) (\<lambda>distributionConfig.
     thenE (runRules (rules_spec_order p) distributionConfig) (\<lambda>dc.
       setPath resources distributionConfigPath dc))"

text \<open>
  Two values are the same up to key order when they are equal except that objects
  anywhere inside them may list their keys in a different order.
\<close>

inductive sameUpToKeyOrder :: "jsval \<Rightarrow> jsval \<Rightarrow> bool" where
  same: "sameUpToKeyOrder v v"
| arrays: "list_all2 sameUpToKeyOrder xs ys \<Longrightarrow> sameUpToKeyOrder (JArr xs) (JArr ys)"
| objects:
    "(\<forall>k. (map_of a k = None \<and> map_of b k = None) \<or>
          (\<exists>x y. map_of a k = Some x \<and> map_of b k = Some y \<and> sameUpToKeyOrder x y))
     \<Longrightarrow> sameUpToKeyOrder (JObj a) (JObj b)"

text \<open>
  The outcomes of two runs agree up to key order: the same error, or results that are
  the same up to key order.
\<close>

definition sameOutcome :: "error + jsval \<Rightarrow> error + jsval \<Rightarrow> bool" where
  "sameOutcome m n = (case m of
      Inl e \<Rightarrow> n = Inl e
    | Inr x \<Rightarrow> (case n of Inl e \<Rightarrow> False | Inr y \<Rightarrow> sameUpToKeyOrder x y))"

text \<open>
  A step keeps a path when every run of it that returns leaves unchanged what can be
  read at the path and whether the path exists.
\<close>

definition keeps :: "(jsval \<Rightarrow> error + jsval) \<Rightarrow> string list \<Rightarrow> bool" where
  "keeps r bs = (\<forall>x y. r x = Inr y \<longrightarrow> getPath y bs = getPath x bs \<and> hasPath y bs = hasPath x bs)"

text \<open>
  The values that \<open>prepareOrigins\<close>, \<open>prepareCookies\<close>, \<open>prepareHeaders\<close> and
  \<open>prepareQueryString\<close> assign to \<open>OriginPath\<close>, \<open>Cookies.Forward\<close>, \<open>Headers\<close> and
  \<open>QueryString\<close>.
\<close>

definition originPath :: "plugin \<Rightarrow> jsval" where
  "originPath p =
     (if truthy (getConfig p [''httpApi''] (JBool False)) then JStr [] else JStr (''/'' @ stage p))"

definition cookiesForward :: "plugin \<Rightarrow> jsval" where
  "cookiesForward p =
     (let forwardCookies = getConfig p [''cookies''] (JStr ''all'')
      in if isArray forwardCookies then JStr ''whitelist'' else forwardCookies)"

definition forwardedHeaders :: "plugin \<Rightarrow> jsval" where
  "forwardedHeaders p =
     (let forwardHeaders = getConfig p [''headers''] (JStr ''none'')
      in if isArray forwardHeaders then forwardHeaders
         else if forwardHeaders = JStr ''none'' then JArr [] else JArr [JStr ''*''])"

definition forwardQueryString :: "plugin \<Rightarrow> jsval" where
  "forwardQueryString p =
     (let forwardQueryString = getConfig p [''querystring''] (JStr ''all'')
      in JBool (isArray forwardQueryString \<or> forwardQueryString = JStr ''all''))"

text \<open>
  What a run of \<open>prepareResources\<close> leaves at a path of the distribution config.
\<close>

definition outputAt :: "plugin \<Rightarrow> jsval \<Rightarrow> string list \<Rightarrow> error + jsval" where
  "outputAt p resources ks =
     thenE (prepareResources p resources) (\<lambda>out. getPath out (distributionConfigPath @ ks))"

text \<open>
  The fields of the configuration map that the fourteen methods read, each with the
  default that \<open>getConfig\<close> is given for it.
\<close>

definition configReads :: "(string list \<times> jsval) list" where
  "configReads =
     [([''logging'', ''bucket''], JNull),
      ([''logging'', ''prefix''], JStr []),
      ([''domain''], JNull),
      ([''httpApi''], JBool False),
      ([''priceClass''], JStr ''PriceClass_All''),
      ([''originCustomHeaders''], JArr []),
      ([''cookies''], JStr ''all''),
      ([''headers''], JStr ''none''),
      ([''ttl''], JNull),
      ([''cachePolicyId''], JNull),
      ([''originRequestPolicyId''], JNull),
      ([''querystring''], JStr ''all''),
      ([''certificate''], JNull),
      ([''waf''], JNull),
      ([''compress''], JBool False),
      ([''minimumProtocolVersion''], JUndef)]"

text \<open>
  A step is insensitive to key order when it takes values that are the same up to key
  order to outcomes that agree up to key order.
\<close>

definition insensitive :: "(jsval \<Rightarrow> error + jsval) \<Rightarrow> bool" where
  "insensitive r = (\<forall>x y. sameUpToKeyOrder x y \<longrightarrow> sameOutcome (r x) (r y))"

text \<open>
  What \<open>prepareTTL\<close> and \<open>preparePolicies\<close> do to the properties of a
  \<open>DefaultCacheBehavior\<close> object.
\<close>

definition ttlWrites :: "plugin \<Rightarrow> (string \<times> jsval) list \<Rightarrow> (string \<times> jsval) list" where
  "ttlWrites p d =
     (let ttl = getConfig p [''ttl''] JNull in
      if truthy ttl
      then AList.update ''MinTTL'' (baseGet ttl [''min''])
             (AList.update ''MaxTTL'' (baseGet ttl [''max''])
               (AList.update ''DefaultTTL'' (baseGet ttl [''default'']) d))
      else d)"

definition policyWrites :: "plugin \<Rightarrow> (string \<times> jsval) list \<Rightarrow> (string \<times> jsval) list" where
  "policyWrites p d =
     (let cachePolicyId = getConfig p [''cachePolicyId''] JNull;
          originRequestPolicyId = getConfig p [''originRequestPolicyId''] JNull;
          d1 = (if truthy cachePolicyId then AList.update ''CachePolicyId'' cachePolicyId d else d)
      in if truthy originRequestPolicyId
         then AList.update ''OriginRequestPolicyId'' originRequestPolicyId d1 else d1)"

text \<open>
  The error of a write \<open>x[D][k] = v\<close> with a name \<open>k\<close> when \<open>x[D]\<close> is not an object.
\<close>

definition writeError :: "jsval \<Rightarrow> string \<Rightarrow> error" where
  "writeError x D = (case getProp x D of
      Inl e \<Rightarrow> TypeError
    | Inr c \<Rightarrow> if isArray c then Unmodelled else TypeError)"



section \<open>Example inputs\<close>

text \<open>
  A small template of the shape that the methods expect, and a host whose configuration
  map is the given object.
\<close>

definition sample_distributionConfig :: jsval where
  "sample_distributionConfig =
     JObj [(''Origins'', JArr [JObj [(''Id'', JStr ''ApiGateway'')]]),
           (''Aliases'', JArr [JStr ''domain.tld'']),
           (''DefaultCacheBehavior'', JObj [
              (''ForwardedValues'', JObj [(''Cookies'', JObj [(''Forward'', JStr ''none'')])]),
              (''MinTTL'', JStr ''0''),
              (''CachePolicyId'', JStr ''template-policy'')]),
           (''ViewerCertificate'', JObj [(''SslSupportMethod'', JStr ''sni-only'')]),
           (''Logging'', JObj [(''IncludeCookies'', JStr ''false'')])]"

definition sample_resources :: jsval where
  "sample_resources =
     JObj [(''Resources'', JObj [(''ApiDistribution'', JObj [
        (''Properties'', JObj [(''DistributionConfig'', sample_distributionConfig)])])])]"

definition sample_plugin :: "(string \<times> jsval) list \<Rightarrow> plugin" where
  "sample_plugin cfg =
     \<lparr>custom = JObj [(''apiCloudFront'', JObj cfg)],
      tags = JUndef,
      compiledCloudFormationTemplate = JObj [],
      stage = ''prod'',
      apiGatewayName = ''prod-api''\<rparr>"


text \<open>
  A template whose distribution config holds all four optional blocks: \<open>Logging\<close>,
  \<open>Aliases\<close>, \<open>ViewerCertificate\<close> and \<open>WebACLId\<close>.
\<close>

definition sample_resources_with_waf :: jsval where
  "sample_resources_with_waf =
     JObj [(''Resources'', JObj [(''ApiDistribution'', JObj [
        (''Properties'', JObj [(''DistributionConfig'',
           JObj [(''Origins'', JArr [JObj [(''Id'', JStr ''ApiGateway'')]]),
                 (''Aliases'', JArr [JStr ''domain.tld'']),
                 (''DefaultCacheBehavior'', JObj [
                    (''ForwardedValues'', JObj [(''Cookies'', JObj [(''Forward'', JStr ''none'')])])]),
                 (''ViewerCertificate'', JObj [(''SslSupportMethod'', JStr ''sni-only'')]),
                 (''Logging'', JObj [(''IncludeCookies'', JStr ''false'')]),
                 (''WebACLId'', JStr ''template-acl'')])])])])]"

section \<open>Reading and writing along paths\<close>

lemma thenE_Inl [simp]: "thenE (Inl e) f = Inl e"
  by (simp add: thenE_def)

lemma thenE_Inr [simp]: "thenE (Inr x) f = f x"
  by (simp add: thenE_def)

lemma thenE_eq_Inr: "thenE m f = Inr y \<longleftrightarrow> (\<exists>x. m = Inr x \<and> f x = Inr y)"
  by (cases m) simp_all

lemma thenE_InrE:
  assumes "thenE m f = Inr y"
  obtains x where "m = Inr x" and "f x = Inr y"
  using assms by (auto simp: thenE_eq_Inr)

lemma parse_index_zero [simp]: "parse_index ''0'' = Some 0"
  by (simp add: parse_index_def)

lemma parse_index_name [simp]: "\<not> is_digit c \<Longrightarrow> parse_index (c # cs) = None"
  by (auto simp: parse_index_def is_digit_def)

lemma lookup_update [simp]: "lookup (AList.update k x kvs) b = (if b = k then x else lookup kvs b)"
  by (simp add: lookup_def update_conv')

lemma lookup_delete [simp]: "lookup (AList.delete k kvs) b = (if b = k then JUndef else lookup kvs b)"
  by (simp add: lookup_def delete_conv')

lemma setProp_get: "setProp v k x = Inr v' \<Longrightarrow> getProp v' k = Inr x"
  by (cases v) (auto split: if_splits option.splits)

lemma setProp_frame:
  "setProp v k x = Inr v' \<Longrightarrow> apart k b \<Longrightarrow> getProp v' b = getProp v b"
  by (cases v) (auto simp: apart_def nth_append split: if_splits option.splits)

lemma setProp_hasKey: "setProp v k x = Inr v' \<Longrightarrow> hasKey v' k"
  by (cases v) (auto simp: hasKey_def update_conv' split: if_splits option.splits)

lemma setProp_hasKey_frame:
  "setProp v k x = Inr v' \<Longrightarrow> apart k b \<Longrightarrow> hasKey v' b = hasKey v b"
  by (cases v) (auto simp: hasKey_def apart_def update_conv' split: if_splits option.splits)

lemma setPath_get: "setPath v ks x = Inr v' \<Longrightarrow> getPath v' ks = Inr x"
proof (induction v ks x arbitrary: v' rule: setPath.induct)
  case (1 v x)
  then show ?case by simp
next
  case (2 v k x)
  then show ?case by (simp add: setProp_get)
next
  case (3 v k k2 ks x)
  from "3.prems" obtain c c' where c: "getProp v k = Inr c"
    and c': "setPath c (k2 # ks) x = Inr c'" and v': "setProp v k c' = Inr v'"
    by (auto elim!: thenE_InrE)
  from "3.IH" [OF c'] have "getPath c' (k2 # ks) = Inr x" .
  with setProp_get [OF v'] show ?case by simp
qed

lemma setPath_frame:
  "setPath v ks x = Inr v' \<Longrightarrow> diverge ks bs \<Longrightarrow> getPath v' bs = getPath v bs"
proof (induction v ks x arbitrary: v' bs rule: setPath.induct)
  case (1 v x)
  then show ?case by simp
next
  case (2 v k x)
  then obtain b bs' where bs: "bs = b # bs'" by (cases bs) auto
  with "2.prems" have "apart k b" by (auto split: if_splits)
  with "2.prems" bs show ?case by (simp add: setProp_frame)
next
  case (3 v k k2 ks x)
  from "3.prems" obtain c c' where c: "getProp v k = Inr c"
    and c': "setPath c (k2 # ks) x = Inr c'" and v': "setProp v k c' = Inr v'"
    by (auto elim!: thenE_InrE)
  from "3.prems" obtain b bs' where bs: "bs = b # bs'" by (cases bs) auto
  show ?case
  proof (cases "k = b")
    case True
    with "3.prems" bs have "diverge (k2 # ks) bs'" by simp
    from "3.IH" [OF c' this] have "getPath c' bs' = getPath c bs'" .
    with setProp_get [OF v'] c True bs show ?thesis by simp
  next
    case False
    with "3.prems" bs have "apart k b" by simp
    with setProp_frame [OF v'] bs show ?thesis by simp
  qed
qed


lemma hasPath_Cons:
  "hasPath v (b # bs) =
     (if bs = [] then hasKey v b else (case getProp v b of Inl e \<Rightarrow> False | Inr c \<Rightarrow> hasPath c bs))"
  by (cases bs) (simp_all cong: sum.case_cong)

lemma diverge_nonempty: "diverge ks bs \<Longrightarrow> ks \<noteq> [] \<and> bs \<noteq> []"
  by (cases ks; cases bs) simp_all

lemma setPath_hasPath_frame:
  "setPath v ks x = Inr v' \<Longrightarrow> diverge ks bs \<Longrightarrow> hasPath v' bs = hasPath v bs"
proof (induction v ks x arbitrary: v' bs rule: setPath.induct)
  case (1 v x)
  then show ?case by simp
next
  case (2 v k x)
  then obtain b bs' where bs: "bs = b # bs'" by (cases bs) auto
  with "2.prems" have "apart k b" by (auto split: if_splits)
  with "2.prems" bs show ?case
    by (simp add: hasPath_Cons setProp_frame setProp_hasKey_frame)
next
  case (3 v k k2 ks x)
  from "3.prems" obtain c c' where c: "getProp v k = Inr c"
    and c': "setPath c (k2 # ks) x = Inr c'" and v': "setProp v k c' = Inr v'"
    by (auto elim!: thenE_InrE)
  from "3.prems" obtain b bs' where bs: "bs = b # bs'" by (cases bs) auto
  show ?case
  proof (cases "k = b")
    case True
    with "3.prems" bs have d: "diverge (k2 # ks) bs'" by simp
    then have "bs' \<noteq> []" by (simp add: diverge_nonempty)
    moreover from "3.IH" [OF c' d] have "hasPath c' bs' = hasPath c bs'" .
    ultimately show ?thesis using setProp_get [OF v'] c True bs by (simp add: hasPath_Cons)
  next
    case False
    with "3.prems" bs have "apart k b" by simp
    with setProp_frame [OF v'] setProp_hasKey_frame [OF v'] bs show ?thesis
      by (simp add: hasPath_Cons)
  qed
qed

lemma deleteProp_frame: "deleteProp v k = Inr v' \<Longrightarrow> b \<noteq> k \<Longrightarrow> getProp v' b = getProp v b"
  by (cases v) auto

lemma deleteProp_hasKey_frame: "deleteProp v k = Inr v' \<Longrightarrow> b \<noteq> k \<Longrightarrow> hasKey v' b = hasKey v b"
  by (cases v) (auto simp: hasKey_def delete_conv')

lemma deleteProp_gone:
  "deleteProp v k = Inr v' \<Longrightarrow> parse_index k = None \<Longrightarrow> k \<noteq> ''length'' \<Longrightarrow>
     \<not> hasKey v' k \<and> getProp v' k = Inr JUndef"
  by (cases v) (auto simp: hasKey_def delete_conv')

subsection \<open>Steps that keep a path\<close>

lemma keeps_setPath: "diverge ks bs \<Longrightarrow> keeps (\<lambda>v. setPath v ks x) bs"
  by (simp add: keeps_def setPath_frame setPath_hasPath_frame)

lemma keeps_setProp: "diverge [k] bs \<Longrightarrow> keeps (\<lambda>v. setProp v k x) bs"
  using keeps_setPath [of "[k]" bs x] by simp

lemma keeps_deleteProp: "diverge [k] bs \<Longrightarrow> keeps (\<lambda>v. deleteProp v k) bs"
proof -
  assume d: "diverge [k] bs"
  then obtain b bs' where bs: "bs = b # bs'" and ne: "b \<noteq> k"
    by (cases bs) (auto split: if_splits)
  show ?thesis
    unfolding keeps_def bs
    by (auto simp: hasPath_Cons deleteProp_frame [OF _ ne] deleteProp_hasKey_frame [OF _ ne])
qed

lemma keeps_Inr: "keeps Inr bs"
  by (simp add: keeps_def)

lemma keeps_thenE: "keeps f bs \<Longrightarrow> keeps g bs \<Longrightarrow> keeps (\<lambda>v. thenE (f v) g) bs"
  unfolding keeps_def by (auto elim!: thenE_InrE)

lemma keeps_if: "(c \<Longrightarrow> keeps f bs) \<Longrightarrow> (\<not> c \<Longrightarrow> keeps g bs) \<Longrightarrow> keeps (\<lambda>v. if c then f v else g v) bs"
  by (simp add: keeps_def)

lemma keeps_runRules: "(\<And>r. r \<in> set rs \<Longrightarrow> keeps r bs) \<Longrightarrow> keeps (runRules rs) bs"
proof (induction rs)
  case Nil
  show ?case by (simp add: keeps_def)
next
  case (Cons r rs)
  have "keeps (\<lambda>v. thenE (r v) (runRules rs)) bs"
    by (rule keeps_thenE) (simp_all add: Cons)
  then show ?case by (simp add: keeps_def)
qed

lemma diverge_longer: "diverge ks bs \<Longrightarrow> diverge (ks @ cs) bs"
  by (induction ks bs rule: diverge.induct) simp_all

lemma keeps_prepareLogging: "diverge [''Logging''] bs \<Longrightarrow> keeps (prepareLogging p) bs"
  unfolding prepareLogging_def Let_def
  using diverge_longer [of "[''Logging'']" bs]
  by (intro keeps_if keeps_thenE keeps_setPath keeps_deleteProp) simp_all

section \<open>The configuration accessor\<close>

lemma baseGet_undef [simp]: "baseGet JUndef ks = JUndef"
  by (cases ks) simp_all

lemma baseGet_Cons: "baseGet v (k # ks) = baseGet (baseGet v [k]) ks"
  by (cases "getProp v k") simp_all

lemma getConfig_config:
  "getConfig p field d = (if config p field = JUndef then d else config p field)"
  by (simp add: getConfig_def config_def lodash_get_def)

lemma diverge_single: "diverge [a] bs \<Longrightarrow> diverge (a # as) bs"
  using diverge_longer [of "[a]" bs as] by simp

section \<open>Each rule keeps what it does not write\<close>

named_theorems keeps_intros

lemmas [keeps_intros] = keeps_if keeps_thenE keeps_setPath keeps_setProp keeps_deleteProp keeps_Inr

lemma keeps_prepareDomain:
  "diverge [''Aliases''] bs \<Longrightarrow> diverge [''Origins'', ''0'', ''DomainName''] bs \<Longrightarrow>
     keeps (prepareDomain p) bs"
  unfolding prepareDomain_def Let_def
  by (intro keeps_intros) simp_all

lemma keeps_preparePriceClass: "diverge [''PriceClass''] bs \<Longrightarrow> keeps (preparePriceClass p) bs"
  unfolding preparePriceClass_def Let_def
  by (intro keeps_intros) simp_all

lemma keeps_read:
  "(\<And>c. keeps (\<lambda>v. g c v) bs) \<Longrightarrow> keeps (\<lambda>v. thenE (getProp v k) (\<lambda>c. g c v)) bs"
  unfolding keeps_def by (auto elim!: thenE_InrE)

lemma keeps_const:
  "(\<And>c. keeps (\<lambda>v. g c v) bs) \<Longrightarrow> keeps (\<lambda>v. thenE m (\<lambda>c. g c v)) bs"
  unfolding keeps_def by (auto elim!: thenE_InrE)

lemma keeps_fail: "keeps (\<lambda>v. Inl e) bs"
  by (simp add: keeps_def)

lemma keeps_prepareOrigins:
  "diverge [''Origins'', ''0'', ''OriginCustomHeaders''] bs \<Longrightarrow>
   diverge [''Origins'', ''0'', ''OriginPath''] bs \<Longrightarrow> keeps (prepareOrigins p) bs"
  unfolding prepareOrigins_def Let_def
  by (intro keeps_read keeps_const keeps_if keeps_fail keeps_thenE keeps_setPath) simp_all

lemma keeps_prepareCookies:
  "diverge [''DefaultCacheBehavior'', ''ForwardedValues'', ''Cookies'', ''Forward''] bs \<Longrightarrow>
   diverge [''DefaultCacheBehavior'', ''ForwardedValues'', ''Cookies'', ''WhitelistedNames''] bs \<Longrightarrow>
     keeps (prepareCookies p) bs"
  unfolding prepareCookies_def Let_def
  by (intro keeps_intros) simp_all

lemma keeps_prepareHeaders:
  "diverge [''DefaultCacheBehavior'', ''ForwardedValues'', ''Headers''] bs \<Longrightarrow>
     keeps (prepareHeaders p) bs"
  unfolding prepareHeaders_def Let_def
  by (intro keeps_intros) simp_all

lemma keeps_prepareTTL:
  "diverge [''DefaultCacheBehavior'', ''DefaultTTL''] bs \<Longrightarrow>
   diverge [''DefaultCacheBehavior'', ''MaxTTL''] bs \<Longrightarrow>
   diverge [''DefaultCacheBehavior'', ''MinTTL''] bs \<Longrightarrow> keeps (prepareTTL p) bs"
  unfolding prepareTTL_def Let_def
  by (intro keeps_intros) simp_all

lemma keeps_preparePolicies:
  "diverge [''DefaultCacheBehavior'', ''CachePolicyId''] bs \<Longrightarrow>
   diverge [''DefaultCacheBehavior'', ''OriginRequestPolicyId''] bs \<Longrightarrow>
     keeps (preparePolicies p) bs"
  unfolding preparePolicies_def Let_def
  by (intro keeps_intros) simp_all

lemma keeps_prepareQueryString:
  "diverge [''DefaultCacheBehavior'', ''ForwardedValues'', ''QueryString''] bs \<Longrightarrow>
   diverge [''DefaultCacheBehavior'', ''ForwardedValues'', ''QueryStringCacheKeys''] bs \<Longrightarrow>
     keeps (prepareQueryString p) bs"
  unfolding prepareQueryString_def Let_def
  by (intro keeps_intros) simp_all

lemma keeps_prepareComment: "diverge [''Comment''] bs \<Longrightarrow> keeps (prepareComment p) bs"
  unfolding prepareComment_def Let_def
  by (intro keeps_intros) simp_all

lemma keeps_prepareCertificate:
  "diverge [''ViewerCertificate''] bs \<Longrightarrow> keeps (prepareCertificate p) bs"
  unfolding prepareCertificate_def Let_def
  by (intro keeps_intros) (simp_all add: diverge_single)

lemma keeps_prepareWaf: "diverge [''WebACLId''] bs \<Longrightarrow> keeps (prepareWaf p) bs"
  unfolding prepareWaf_def Let_def
  by (intro keeps_intros) simp_all

lemma keeps_prepareCompress:
  "diverge [''DefaultCacheBehavior'', ''Compress''] bs \<Longrightarrow> keeps (prepareCompress p) bs"
  unfolding prepareCompress_def
  by (intro keeps_intros) simp_all

lemma keeps_prepareMinimumProtocolVersion:
  "diverge [''ViewerCertificate'', ''MinimumProtocolVersion''] bs \<Longrightarrow>
     keeps (prepareMinimumProtocolVersion p) bs"
  unfolding prepareMinimumProtocolVersion_def Let_def
  by (intro keeps_intros) simp_all

section \<open>Running the rules\<close>

lemma rules_run:
  assumes "runRules (rules p) x = Inr y"
  obtains x1 x2 x3 x4 x5 x6 x7 x8 x9 x10 x11 x12 x13 where
    "prepareLogging p x = Inr x1" "prepareDomain p x1 = Inr x2"
    "preparePriceClass p x2 = Inr x3" "prepareOrigins p x3 = Inr x4"
    "prepareCookies p x4 = Inr x5" "prepareHeaders p x5 = Inr x6"
    "prepareTTL p x6 = Inr x7" "preparePolicies p x7 = Inr x8"
    "prepareQueryString p x8 = Inr x9" "prepareComment p x9 = Inr x10"
    "prepareCertificate p x10 = Inr x11" "prepareWaf p x11 = Inr x12"
    "prepareCompress p x12 = Inr x13" "prepareMinimumProtocolVersion p x13 = Inr y"
  using assms by (auto simp: rules_def thenE_eq_Inr)

lemma getPath_append: "getPath v (ks @ bs) = thenE (getPath v ks) (\<lambda>c. getPath c bs)"
proof (induction ks arbitrary: v)
  case Nil
  show ?case by simp
next
  case (Cons k ks)
  show ?case by (cases "getProp v k") (simp_all add: Cons)
qed

lemma hasPath_append:
  "bs \<noteq> [] \<Longrightarrow> hasPath v (ks @ bs) = (case getPath v ks of Inl e \<Rightarrow> False | Inr c \<Rightarrow> hasPath c bs)"
proof (induction ks arbitrary: v)
  case Nil
  show ?case by simp
next
  case (Cons k ks)
  then show ?case by (cases "getProp v k") (simp_all add: hasPath_Cons)
qed

lemma prepareResources_run:
  assumes "prepareResources p resources = Inr out"
  obtains dc dc' where "getPath resources distributionConfigPath = Inr dc"
    and "runRules (rules p) dc = Inr dc'"
    and "getPath out distributionConfigPath = Inr dc'"
    and "setPath resources distributionConfigPath dc' = Inr out"
  using assms unfolding prepareResources_def
  by (auto elim!: thenE_InrE dest: setPath_get)

lemma keeps_apply:
  "keeps r bs \<Longrightarrow> r x = Inr y \<Longrightarrow> getPath y bs = getPath x bs"
  "keeps r bs \<Longrightarrow> r x = Inr y \<Longrightarrow> hasPath y bs = hasPath x bs"
  by (simp_all add: keeps_def)

lemma minimumProtocolVersion_needs_certificate:
  assumes cert: "config p [''certificate''] = JUndef \<or> config p [''certificate''] = JNull"
    and mpv: "truthy (config p [''minimumProtocolVersion''])"
  shows "runRules (rules p) dc \<noteq> Inr dc'"
proof
  assume "runRules (rules p) dc = Inr dc'"
  then obtain x10 x11 x12 x13 where
    r11: "prepareCertificate p x10 = Inr x11" and r12: "prepareWaf p x11 = Inr x12"
    and r13: "prepareCompress p x12 = Inr x13"
    and r14: "prepareMinimumProtocolVersion p x13 = Inr dc'"
    by (rule rules_run)
  from cert r11 have "deleteProp x10 ''ViewerCertificate'' = Inr x11"
    by (auto simp: prepareCertificate_def getConfig_config)
  then have "getProp x11 ''ViewerCertificate'' = Inr JUndef"
    by (simp add: deleteProp_gone is_digit_def)
  moreover have "getPath x12 [''ViewerCertificate''] = getPath x11 [''ViewerCertificate'']"
    by (rule keeps_apply [OF keeps_prepareWaf r12]) (simp add: apart_def is_digit_def)
  moreover have "getPath x13 [''ViewerCertificate''] = getPath x12 [''ViewerCertificate'']"
    by (rule keeps_apply [OF keeps_prepareCompress r13]) (simp add: apart_def is_digit_def)
  ultimately have "getProp x13 ''ViewerCertificate'' = Inr JUndef"
    by (cases "getProp x13 ''ViewerCertificate''"; cases "getProp x12 ''ViewerCertificate''") simp_all
  with mpv r14 show False
    by (auto simp: prepareMinimumProtocolVersion_def getConfig_config truthy_def split: if_splits)
qed

lemma minimumProtocolVersion_without_certificate_never_returns:
  assumes "config p [''certificate''] = JUndef \<or> config p [''certificate''] = JNull"
    and "truthy (config p [''minimumProtocolVersion''])"
  shows "prepareResources p resources \<noteq> Inr out"
    and "createDeploymentArtifacts p resources \<noteq> Inr template"
proof -
  show "prepareResources p resources \<noteq> Inr out" for out
    using minimumProtocolVersion_needs_certificate [OF assms]
    by (auto simp: prepareResources_def elim!: thenE_InrE)
  then show "createDeploymentArtifacts p resources \<noteq> Inr template"
    by (auto simp: createDeploymentArtifacts_def elim!: thenE_InrE)
qed

lemma sample_simps:
  "custom (sample_plugin cfg) = JObj [(''apiCloudFront'', JObj cfg)]"
  "stage (sample_plugin cfg) = ''prod''"
  "apiGatewayName (sample_plugin cfg) = ''prod-api''"
  "tags (sample_plugin cfg) = JUndef"
  "compiledCloudFormationTemplate (sample_plugin cfg) = JObj []"
  by (simp_all add: sample_plugin_def)

lemmas rule_defs =
  prepareLogging_def prepareDomain_def preparePriceClass_def prepareOrigins_def
  prepareCookies_def prepareHeaders_def prepareTTL_def preparePolicies_def prepareQueryString_def
  prepareComment_def prepareCertificate_def prepareWaf_def prepareCompress_def
  prepareMinimumProtocolVersion_def

lemmas eval_defs =
  rule_defs prepareResources_def rules_def distributionConfigPath_def sample_simps
  sample_resources_def sample_distributionConfig_def getConfig_def lodash_get_def lookup_def
  truthy_def isArray_def isObject_def is_digit_def lodash_head_def array_map_def domainName_def
  getPath.simps setPath.simps hasPath.simps

lemma runRules_append: "runRules (rs @ ss) x = thenE (runRules rs x) (runRules ss)"
proof (induction rs arbitrary: x)
  case Nil
  show ?case by simp
next
  case (Cons r rs)
  show ?case by (cases "r x") (simp_all add: Cons)
qed

lemma runRules_split:
  assumes "runRules rs x = Inr y"
  obtains z where "runRules (take n rs) x = Inr z" and "runRules (drop n rs) z = Inr y"
proof -
  have "runRules (take n rs @ drop n rs) x = Inr y" using assms by simp
  then show ?thesis
    unfolding runRules_append by (auto elim!: thenE_InrE intro: that)
qed

lemma setPath_hasPath_prefix:
  "setPath v (ps @ qs) x = Inr v' \<Longrightarrow> ps \<noteq> [] \<Longrightarrow> hasPath v' ps"
proof (induction v "ps @ qs" x arbitrary: v' ps qs rule: setPath.induct)
  case (1 v x)
  then show ?case by simp
next
  case (2 v k x)
  then have "ps = [k]" by (cases ps) auto
  with 2 show ?case by (auto simp: setProp_hasKey)
next
  case (3 v k k2 ks x)
  from "3.hyps"(2) "3.prems"(2) obtain ps' where ps: "ps = k # ps'" and rest: "k2 # ks = ps' @ qs"
    by (cases ps) auto
  from "3.prems"(1) "3.hyps"(2) [symmetric] obtain c c' where c: "getProp v k = Inr c"
    and c': "setPath c (k2 # ks) x = Inr c'" and v': "setProp v k c' = Inr v'"
    by (auto elim!: thenE_InrE)
  show ?case
  proof (cases "ps' = []")
    case True
    with ps v' show ?thesis by (simp add: setProp_hasKey)
  next
    case False
    from c' rest have "setPath c (ps' @ qs) x = Inr c'" by simp
    from "3.hyps"(1) [OF rest this False] have "hasPath c' ps'" .
    with False ps setProp_get [OF v'] show ?thesis by (simp add: hasPath_Cons)
  qed
qed

lemma setPath_hasPath: "setPath v ks x = Inr v' \<Longrightarrow> ks \<noteq> [] \<Longrightarrow> hasPath v' ks"
  using setPath_hasPath_prefix [of v ks "[]" x v'] by simp

lemmas path_simps = apart_def is_digit_def

section \<open>What each rule writes\<close>

lemma effect_prepareLogging:
  assumes "prepareLogging p x = Inr y"
  shows "config p [''logging'', ''bucket''] = JUndef \<or> config p [''logging'', ''bucket''] = JNull
           \<Longrightarrow> \<not> hasPath y [''Logging'']"
    and "config p [''logging'', ''bucket''] \<noteq> JUndef \<Longrightarrow> config p [''logging'', ''bucket''] \<noteq> JNull
           \<Longrightarrow> getPath y [''Logging'', ''Bucket''] = Inr (config p [''logging'', ''bucket'']) \<and>
               getPath y [''Logging'', ''Prefix''] = Inr (getConfig p [''logging'', ''prefix''] (JStr [])) \<and>
               hasPath y [''Logging'', ''Bucket''] \<and> hasPath y [''Logging'', ''Prefix''] \<and>
               hasPath y [''Logging'']"
proof -
  assume "config p [''logging'', ''bucket''] = JUndef \<or> config p [''logging'', ''bucket''] = JNull"
  with assms have "deleteProp x ''Logging'' = Inr y"
    by (auto simp: prepareLogging_def getConfig_config)
  then show "\<not> hasPath y [''Logging'']"
    by (simp add: deleteProp_gone is_digit_def)
next
  assume "config p [''logging'', ''bucket''] \<noteq> JUndef" "config p [''logging'', ''bucket''] \<noteq> JNull"
  with assms obtain z where
    z: "setPath x [''Logging'', ''Bucket''] (config p [''logging'', ''bucket'']) = Inr z"
    and y: "setPath z [''Logging'', ''Prefix''] (getConfig p [''logging'', ''prefix''] (JStr [])) = Inr y"
    by (auto simp: prepareLogging_def getConfig_config elim!: thenE_InrE)
  have d: "diverge [''Logging'', ''Prefix''] [''Logging'', ''Bucket'']" by (simp add: path_simps)
  from setPath_get [OF z] setPath_frame [OF y d]
  have "getPath y [''Logging'', ''Bucket''] = Inr (config p [''logging'', ''bucket''])" by simp
  moreover from setPath_hasPath [OF z] setPath_hasPath_frame [OF y d]
  have "hasPath y [''Logging'', ''Bucket'']" by simp
  moreover from setPath_hasPath_prefix [of z "[''Logging'']" "[''Prefix'']", OF _ _] y
  have "hasPath y [''Logging'']" by simp
  ultimately show "getPath y [''Logging'', ''Bucket''] = Inr (config p [''logging'', ''bucket'']) \<and>
               getPath y [''Logging'', ''Prefix''] = Inr (getConfig p [''logging'', ''prefix''] (JStr [])) \<and>
               hasPath y [''Logging'', ''Bucket''] \<and> hasPath y [''Logging'', ''Prefix''] \<and>
               hasPath y [''Logging'']"
    using setPath_get [OF y] setPath_hasPath [OF y] by simp
qed

declare setPath.simps [simp del] getPath.simps [simp del] hasPath.simps [simp del]

lemma setProp_as_setPath: "setProp v k x = setPath v [k] x"
  by (simp add: setPath.simps)

lemma deleteProp_hasPath: 
  "deleteProp v k = Inr v' \<Longrightarrow> parse_index k = None \<Longrightarrow> k \<noteq> ''length'' \<Longrightarrow> \<not> hasPath v' [k]"
  by (simp add: deleteProp_gone hasPath.simps)

lemma effect_prepareDomain:
  assumes "prepareDomain p x = Inr y"
  shows "config p [''domain''] = JUndef \<or> config p [''domain''] = JNull
           \<Longrightarrow> \<not> hasPath y [''Aliases'']"
    and "config p [''domain''] \<noteq> JUndef \<Longrightarrow> config p [''domain''] \<noteq> JNull
           \<Longrightarrow> hasPath y [''Aliases''] \<and>
               getPath y [''Aliases''] =
                 Inr (if isArray (config p [''domain'']) then config p [''domain'']
                      else JArr [config p [''domain'']])"
    and "getPath y [''Origins'', ''0'', ''DomainName''] =
           Inr (domainName (getConfig p [''httpApi''] (JBool False)))"
proof -
  let ?w = "\<lambda>z. setPath z [''Origins'', ''0'', ''DomainName'']
                  (domainName (getConfig p [''httpApi''] (JBool False)))"
  have d: "diverge [''Origins'', ''0'', ''DomainName''] [''Aliases'']" by (simp add: path_simps)
  {
    assume "config p [''domain''] = JUndef \<or> config p [''domain''] = JNull"
    with assms obtain z where z: "deleteProp x ''Aliases'' = Inr z" and y: "?w z = Inr y"
      by (auto simp: prepareDomain_def Let_def getConfig_config [of _ "[''domain'']"]
          elim!: thenE_InrE)
    from z have "\<not> hasPath z [''Aliases'']" by (simp add: deleteProp_hasPath is_digit_def)
    with setPath_hasPath_frame [OF y d] show "\<not> hasPath y [''Aliases'']" by simp
  next
    let ?a = "if isArray (config p [''domain'']) then config p [''domain'']
              else JArr [config p [''domain'']]"
    assume "config p [''domain''] \<noteq> JUndef" "config p [''domain''] \<noteq> JNull"
    with assms obtain z where z: "setPath x [''Aliases''] ?a = Inr z" and y: "?w z = Inr y"
      by (auto simp: prepareDomain_def Let_def getConfig_config [of _ "[''domain'']"]
          setProp_as_setPath elim!: thenE_InrE)
    from setPath_hasPath [OF z] setPath_get [OF z]
      setPath_hasPath_frame [OF y d] setPath_frame [OF y d]
    show "hasPath y [''Aliases''] \<and> getPath y [''Aliases''] = Inr ?a" by simp
  next
    from assms obtain z where "?w z = Inr y"
      by (auto simp: prepareDomain_def Let_def elim!: thenE_InrE)
    then show "getPath y [''Origins'', ''0'', ''DomainName''] =
           Inr (domainName (getConfig p [''httpApi''] (JBool False)))"
      by (rule setPath_get)
  }
qed

lemma effect_preparePriceClass:
  assumes "preparePriceClass p x = Inr y"
  shows "getPath y [''PriceClass''] = Inr (getConfig p [''priceClass''] (JStr ''PriceClass_All''))"
  using assms setPath_get [of x "[''PriceClass'']"]
  by (simp add: preparePriceClass_def setProp_as_setPath)

lemma effect_prepareOrigins:
  assumes "prepareOrigins p x = Inr y"
  shows "getPath y [''Origins'', ''0'', ''OriginPath''] = Inr (originPath p)"
    and "\<exists>hs. getConfig p [''originCustomHeaders''] (JArr []) = JArr hs \<and>
            getPath y [''Origins'', ''0'', ''OriginCustomHeaders''] = Inr (JArr (map customHeader hs))"
proof -
  from assms obtain headers x1 x2 where
    h: "array_map customHeader (getConfig p [''originCustomHeaders''] (JArr [])) = Inr headers"
    and x1: "setPath x [''Origins'', ''0'', ''OriginCustomHeaders''] headers = Inr x1"
    and x2: "setPath x1 [''Origins'', ''0'', ''OriginPath''] (JStr (''/'' @ stage p)) = Inr x2"
    and y: "setPath x2 [''Origins'', ''0'', ''OriginPath''] (originPath p) = Inr y"
    by (auto simp: prepareOrigins_def Let_def originPath_def elim!: thenE_InrE split: if_splits)
  from y show "getPath y [''Origins'', ''0'', ''OriginPath''] = Inr (originPath p)"
    by (rule setPath_get)
  have d: "diverge [''Origins'', ''0'', ''OriginPath''] [''Origins'', ''0'', ''OriginCustomHeaders'']"
    by (simp add: path_simps)
  from setPath_get [OF x1] setPath_frame [OF x2 d] setPath_frame [OF y d]
  have "getPath y [''Origins'', ''0'', ''OriginCustomHeaders''] = Inr headers" by simp
  moreover from h obtain hs where "getConfig p [''originCustomHeaders''] (JArr []) = JArr hs"
    "headers = JArr (map customHeader hs)"
    by (auto simp: array_map_def split: jsval.splits)
  ultimately show "\<exists>hs. getConfig p [''originCustomHeaders''] (JArr []) = JArr hs \<and>
            getPath y [''Origins'', ''0'', ''OriginCustomHeaders''] = Inr (JArr (map customHeader hs))"
    by simp
qed

lemma effect_prepareCookies:
  assumes "prepareCookies p x = Inr y"
  shows "getPath y [''DefaultCacheBehavior'', ''ForwardedValues'', ''Cookies'', ''Forward''] =
           Inr (cookiesForward p)"
proof -
  let ?f = "[''DefaultCacheBehavior'', ''ForwardedValues'', ''Cookies'', ''Forward'']"
  let ?w = "[''DefaultCacheBehavior'', ''ForwardedValues'', ''Cookies'', ''WhitelistedNames'']"
  from assms obtain z where z: "setPath x ?f (cookiesForward p) = Inr z"
    and y: "y = z \<or> setPath z ?w (getConfig p [''cookies''] (JStr ''all'')) = Inr y"
    by (auto simp: prepareCookies_def cookiesForward_def Let_def elim!: thenE_InrE split: if_splits)
  have d: "diverge ?w ?f" by (simp add: path_simps)
  from y setPath_get [OF z] setPath_frame [OF _ d] show ?thesis by auto
qed

lemma effect_prepareHeaders:
  assumes "prepareHeaders p x = Inr y"
  shows "getPath y [''DefaultCacheBehavior'', ''ForwardedValues'', ''Headers''] =
           Inr (forwardedHeaders p)"
  using assms
  by (auto simp: prepareHeaders_def forwardedHeaders_def Let_def split: if_splits dest: setPath_get)

lemma effect_prepareQueryString:
  assumes "prepareQueryString p x = Inr y"
  shows "getPath y [''DefaultCacheBehavior'', ''ForwardedValues'', ''QueryString''] =
           Inr (forwardQueryString p)"
proof (cases "isArray (getConfig p [''querystring''] (JStr ''all''))")
  case True
  let ?q = "[''DefaultCacheBehavior'', ''ForwardedValues'', ''QueryString'']"
  let ?k = "[''DefaultCacheBehavior'', ''ForwardedValues'', ''QueryStringCacheKeys'']"
  from True assms obtain z where z: "setPath x ?q (JBool True) = Inr z"
    and y: "setPath z ?k (getConfig p [''querystring''] (JStr ''all'')) = Inr y"
    by (auto simp: prepareQueryString_def Let_def elim!: thenE_InrE)
  have d: "diverge ?k ?q" by (simp add: path_simps)
  from True setPath_get [OF z] setPath_frame [OF y d] show ?thesis
    by (simp add: forwardQueryString_def)
next
  case False
  with assms show ?thesis
    by (auto simp: prepareQueryString_def forwardQueryString_def Let_def isArray_def dest: setPath_get)
qed

lemma effect_prepareComment:
  assumes "prepareComment p x = Inr y"
  shows "getPath y [''Comment''] = Inr (JStr (''Serverless Managed '' @ apiGatewayName p))"
  using assms setPath_get [of x "[''Comment'']"]
  by (simp add: prepareComment_def setProp_as_setPath)

lemma effect_prepareCompress:
  assumes "prepareCompress p x = Inr y"
  shows "getPath y [''DefaultCacheBehavior'', ''Compress''] =
           Inr (JBool (config p [''compress''] = JBool True))"
  using assms by (auto simp: prepareCompress_def getConfig_config dest: setPath_get)

lemma effect_prepareCertificate:
  assumes "prepareCertificate p x = Inr y"
  shows "config p [''certificate''] = JUndef \<or> config p [''certificate''] = JNull
           \<Longrightarrow> \<not> hasPath y [''ViewerCertificate'']"
    and "config p [''certificate''] \<noteq> JUndef \<Longrightarrow> config p [''certificate''] \<noteq> JNull
           \<Longrightarrow> hasPath y [''ViewerCertificate'', ''AcmCertificateArn''] \<and>
               getPath y [''ViewerCertificate'', ''AcmCertificateArn''] = Inr (config p [''certificate''])"
proof -
  assume "config p [''certificate''] = JUndef \<or> config p [''certificate''] = JNull"
  with assms have "deleteProp x ''ViewerCertificate'' = Inr y"
    by (auto simp: prepareCertificate_def getConfig_config)
  then show "\<not> hasPath y [''ViewerCertificate'']"
    by (simp add: deleteProp_hasPath is_digit_def)
next
  assume "config p [''certificate''] \<noteq> JUndef" "config p [''certificate''] \<noteq> JNull"
  with assms have
    "setPath x [''ViewerCertificate'', ''AcmCertificateArn''] (config p [''certificate'']) = Inr y"
    by (auto simp: prepareCertificate_def getConfig_config)
  from setPath_hasPath [OF this] setPath_get [OF this]
  show "hasPath y [''ViewerCertificate'', ''AcmCertificateArn''] \<and>
        getPath y [''ViewerCertificate'', ''AcmCertificateArn''] = Inr (config p [''certificate''])"
    by simp
qed

lemma effect_preparePolicies:
  assumes "preparePolicies p x = Inr y"
  shows "truthy (config p [''cachePolicyId'']) \<Longrightarrow>
           getPath y [''DefaultCacheBehavior'', ''CachePolicyId''] = Inr (config p [''cachePolicyId''])"
    and "\<not> truthy (config p [''cachePolicyId'']) \<Longrightarrow>
           getPath y [''DefaultCacheBehavior'', ''CachePolicyId''] =
             getPath x [''DefaultCacheBehavior'', ''CachePolicyId''] \<and>
           hasPath y [''DefaultCacheBehavior'', ''CachePolicyId''] =
             hasPath x [''DefaultCacheBehavior'', ''CachePolicyId'']"
    and "truthy (config p [''originRequestPolicyId'']) \<Longrightarrow>
           getPath y [''DefaultCacheBehavior'', ''OriginRequestPolicyId''] =
             Inr (config p [''originRequestPolicyId''])"
    and "\<not> truthy (config p [''originRequestPolicyId'']) \<Longrightarrow>
           getPath y [''DefaultCacheBehavior'', ''OriginRequestPolicyId''] =
             getPath x [''DefaultCacheBehavior'', ''OriginRequestPolicyId''] \<and>
           hasPath y [''DefaultCacheBehavior'', ''OriginRequestPolicyId''] =
             hasPath x [''DefaultCacheBehavior'', ''OriginRequestPolicyId'']"
proof -
  let ?c = "[''DefaultCacheBehavior'', ''CachePolicyId'']"
  let ?o = "[''DefaultCacheBehavior'', ''OriginRequestPolicyId'']"
  have tc: "truthy (getConfig p [''cachePolicyId''] JNull) = truthy (config p [''cachePolicyId''])"
    and to: "truthy (getConfig p [''originRequestPolicyId''] JNull) =
             truthy (config p [''originRequestPolicyId''])"
    by (simp_all add: getConfig_config truthy_def)
  have gc: "truthy (config p [''cachePolicyId'']) \<Longrightarrow>
            getConfig p [''cachePolicyId''] JNull = config p [''cachePolicyId'']"
    and go: "truthy (config p [''originRequestPolicyId'']) \<Longrightarrow>
            getConfig p [''originRequestPolicyId''] JNull = config p [''originRequestPolicyId'']"
    by (auto simp: getConfig_config truthy_def)
  from assms obtain z where
    z: "(if truthy (config p [''cachePolicyId''])
         then setPath x ?c (config p [''cachePolicyId'']) else Inr x) = Inr z"
    and y: "(if truthy (config p [''originRequestPolicyId''])
         then setPath z ?o (config p [''originRequestPolicyId'']) else Inr z) = Inr y"
    unfolding preparePolicies_def Let_def tc to
    by (auto elim!: thenE_InrE simp: gc go split: if_splits)
  have d1: "diverge ?o ?c" and d2: "diverge ?c ?o" by (simp_all add: path_simps)
  have yc: "getPath y ?c = getPath z ?c \<and> hasPath y ?c = hasPath z ?c"
    using y setPath_frame [OF _ d1] setPath_hasPath_frame [OF _ d1] by (auto split: if_splits)
  have zo: "getPath z ?o = getPath x ?o \<and> hasPath z ?o = hasPath x ?o"
    using z setPath_frame [OF _ d2] setPath_hasPath_frame [OF _ d2] by (auto split: if_splits)
  show "truthy (config p [''cachePolicyId'']) \<Longrightarrow> getPath y ?c = Inr (config p [''cachePolicyId''])"
    using z yc by (auto dest: setPath_get)
  show "\<not> truthy (config p [''cachePolicyId'']) \<Longrightarrow>
          getPath y ?c = getPath x ?c \<and> hasPath y ?c = hasPath x ?c"
    using z yc by auto
  show "truthy (config p [''originRequestPolicyId'']) \<Longrightarrow>
          getPath y ?o = Inr (config p [''originRequestPolicyId''])"
    using y by (auto dest: setPath_get)
  show "\<not> truthy (config p [''originRequestPolicyId'']) \<Longrightarrow>
          getPath y ?o = getPath x ?o \<and> hasPath y ?o = hasPath x ?o"
    using y zo by auto
qed

section \<open>The whole pipeline\<close>

lemmas keeps_rules =
  keeps_prepareLogging keeps_prepareDomain keeps_preparePriceClass keeps_prepareOrigins
  keeps_prepareCookies keeps_prepareHeaders keeps_prepareTTL keeps_preparePolicies
  keeps_prepareQueryString keeps_prepareComment keeps_prepareCertificate keeps_prepareWaf
  keeps_prepareCompress keeps_prepareMinimumProtocolVersion

lemma prepareResources_paths:
  assumes "prepareResources p resources = Inr out"
  obtains dc dc' where "runRules (rules p) dc = Inr dc'"
    and "\<And>bs. getPath resources (distributionConfigPath @ bs) = getPath dc bs"
    and "\<And>bs. bs \<noteq> [] \<Longrightarrow> hasPath resources (distributionConfigPath @ bs) = hasPath dc bs"
    and "\<And>bs. getPath out (distributionConfigPath @ bs) = getPath dc' bs"
    and "\<And>bs. bs \<noteq> [] \<Longrightarrow> hasPath out (distributionConfigPath @ bs) = hasPath dc' bs"
    and "setPath resources distributionConfigPath dc' = Inr out"
proof -
  from assms obtain dc dc' where "getPath resources distributionConfigPath = Inr dc"
    and "runRules (rules p) dc = Inr dc'"
    and "getPath out distributionConfigPath = Inr dc'"
    and "setPath resources distributionConfigPath dc' = Inr out"
    by (rule prepareResources_run)
  then show ?thesis
    by (intro that [of dc dc']) (simp_all add: getPath_append hasPath_append)
qed

lemma rules_take:
  "take 1 (rules p) = [prepareLogging p]"
  "take 2 (rules p) = [prepareLogging p, prepareDomain p]"
  by (simp_all add: rules_def)

lemma rules_at:
  assumes "runRules (rules p) dc = Inr dc'" and "n < 14"
  obtains x z where "runRules (take n (rules p)) dc = Inr x" and "(rules p ! n) x = Inr z"
    and "runRules (drop (Suc n) (rules p)) z = Inr dc'"
proof -
  from assms(1) obtain x where pre: "runRules (take n (rules p)) dc = Inr x"
    and post: "runRules (drop n (rules p)) x = Inr dc'"
    by (rule runRules_split)
  have "length (rules p) = 14" by (simp add: rules_def)
  with assms(2) have "drop n (rules p) = (rules p ! n) # drop (Suc n) (rules p)"
    by (simp add: Cons_nth_drop_Suc)
  with post obtain z where "(rules p ! n) x = Inr z" "runRules (drop (Suc n) (rules p)) z = Inr dc'"
    by (auto elim!: thenE_InrE)
  with pre show ?thesis by (rule that)
qed

lemma setPath_needs_key:
  assumes "setPath v (k # k2 # ks) x = Inr v'"
  shows "hasPath v [k]"
proof -
  from assms obtain c c' where c: "getProp v k = Inr c"
    and c': "setPath c (k2 # ks) x = Inr c'" and v': "setProp v k c' = Inr v'"
    by (auto simp: setPath.simps elim!: thenE_InrE)
  have "\<exists>w u. setProp c k2 w = Inr u"
    using c' by (cases ks) (auto simp: setPath.simps elim!: thenE_InrE)
  then have "c \<noteq> JUndef" by auto
  with c v' show ?thesis
    by (cases v) (auto simp: hasPath.simps hasKey_def lookup_def split: option.splits if_splits)
qed

lemma prepareMinimumProtocolVersion_no_block:
  assumes "prepareMinimumProtocolVersion p x = Inr y" and "\<not> hasPath x [''ViewerCertificate'']"
  shows "\<not> hasPath y [''ViewerCertificate'']"
  using assms setPath_needs_key [of x "''ViewerCertificate''" "''MinimumProtocolVersion''" "[]"]
  by (auto simp: prepareMinimumProtocolVersion_def Let_def split: if_splits)

lemma last_write:
  assumes run: "runRules (rules p) dc = Inr dc'" and n: "n < 14"
    and eff: "\<And>x z. (rules p ! n) x = Inr z \<Longrightarrow> getPath z bs = Inr v"
    and k: "keeps (runRules (drop (Suc n) (rules p))) bs"
  shows "getPath dc' bs = Inr v"
proof -
  from run n obtain x z where "(rules p ! n) x = Inr z"
    and post: "runRules (drop (Suc n) (rules p)) z = Inr dc'"
    by (rule rules_at)
  with eff have "getPath z bs = Inr v" by simp
  with k post show ?thesis by (simp add: keeps_def)
qed

lemma rules_keep_unwritten:
  assumes "list_all (\<lambda>ks. diverge ks bs) written"
  shows "keeps (runRules (rules p)) bs"
  using assms
  by (intro keeps_runRules) (auto simp: rules_def written_def intro!: keeps_rules diverge_single)

section \<open>What the rules read from the host\<close>

lemma rules_cong:
  assumes reads: "\<forall>(f, d) \<in> set configReads. getConfig q f d = getConfig p f d"
    and "stage q = stage p" and "apiGatewayName q = apiGatewayName p"
  shows "rules q = rules p"
proof -
  from reads have eqs:
    "getConfig q [''logging'', ''bucket''] JNull = getConfig p [''logging'', ''bucket''] JNull"
    "getConfig q [''logging'', ''prefix''] (JStr []) = getConfig p [''logging'', ''prefix''] (JStr [])"
    "getConfig q [''domain''] JNull = getConfig p [''domain''] JNull"
    "getConfig q [''httpApi''] (JBool False) = getConfig p [''httpApi''] (JBool False)"
    "getConfig q [''priceClass''] (JStr ''PriceClass_All'') =
       getConfig p [''priceClass''] (JStr ''PriceClass_All'')"
    "getConfig q [''originCustomHeaders''] (JArr []) = getConfig p [''originCustomHeaders''] (JArr [])"
    "getConfig q [''cookies''] (JStr ''all'') = getConfig p [''cookies''] (JStr ''all'')"
    "getConfig q [''headers''] (JStr ''none'') = getConfig p [''headers''] (JStr ''none'')"
    "getConfig q [''ttl''] JNull = getConfig p [''ttl''] JNull"
    "getConfig q [''cachePolicyId''] JNull = getConfig p [''cachePolicyId''] JNull"
    "getConfig q [''originRequestPolicyId''] JNull = getConfig p [''originRequestPolicyId''] JNull"
    "getConfig q [''querystring''] (JStr ''all'') = getConfig p [''querystring''] (JStr ''all'')"
    "getConfig q [''certificate''] JNull = getConfig p [''certificate''] JNull"
    "getConfig q [''waf''] JNull = getConfig p [''waf''] JNull"
    "getConfig q [''compress''] (JBool False) = getConfig p [''compress''] (JBool False)"
    "getConfig q [''minimumProtocolVersion''] JUndef = getConfig p [''minimumProtocolVersion''] JUndef"
    by (simp_all add: configReads_def)
  have "prepareLogging q = prepareLogging p" "prepareDomain q = prepareDomain p"
    "preparePriceClass q = preparePriceClass p" "prepareOrigins q = prepareOrigins p"
    "prepareCookies q = prepareCookies p" "prepareHeaders q = prepareHeaders p"
    "prepareTTL q = prepareTTL p" "preparePolicies q = preparePolicies p"
    "prepareQueryString q = prepareQueryString p" "prepareComment q = prepareComment p"
    "prepareCertificate q = prepareCertificate p" "prepareWaf q = prepareWaf p"
    "prepareCompress q = prepareCompress p"
    "prepareMinimumProtocolVersion q = prepareMinimumProtocolVersion p"
    by (simp_all add: fun_eq_iff rule_defs eqs assms(2,3) cong: if_cong)
  then show ?thesis by (simp add: rules_def)
qed

lemma config_from_map: "config p ks = baseGet (config p []) ks"
  unfolding config_def by (cases "getProp (custom p) ''apiCloudFront''") simp_all

lemma null_default:
  assumes "config p f = JNull" and "config q f = JUndef"
  shows "getConfig q f JNull = getConfig p f JNull"
  using assms by (simp add: getConfig_config)

lemma same_config:
  assumes "config q f = config p f"
  shows "getConfig q f d = getConfig p f d"
  using assms by (simp add: getConfig_config)

section \<open>Values that are the same up to key order\<close>

lemma sameUpToKeyOrder_obj:
  "sameUpToKeyOrder (JObj a) w \<longleftrightarrow>
     (\<exists>b. w = JObj b \<and>
       (\<forall>k. (map_of a k = None \<and> map_of b k = None) \<or>
            (\<exists>x y. map_of a k = Some x \<and> map_of b k = Some y \<and> sameUpToKeyOrder x y)))"
proof
  assume "sameUpToKeyOrder (JObj a) w"
  then show "\<exists>b. w = JObj b \<and>
       (\<forall>k. (map_of a k = None \<and> map_of b k = None) \<or>
            (\<exists>x y. map_of a k = Some x \<and> map_of b k = Some y \<and> sameUpToKeyOrder x y))"
  proof cases
    case same
    have "(map_of a k = None \<and> map_of a k = None) \<or>
          (\<exists>x y. map_of a k = Some x \<and> map_of a k = Some y \<and> sameUpToKeyOrder x y)" for k
      by (cases "map_of a k") (auto intro: sameUpToKeyOrder.same)
    with same show ?thesis by blast
  next
    case (objects b)
    then show ?thesis by blast
  qed
next
  assume "\<exists>b. w = JObj b \<and>
       (\<forall>k. (map_of a k = None \<and> map_of b k = None) \<or>
            (\<exists>x y. map_of a k = Some x \<and> map_of b k = Some y \<and> sameUpToKeyOrder x y))"
  then obtain b where w: "w = JObj b"
    and r: "\<forall>k. (map_of a k = None \<and> map_of b k = None) \<or>
            (\<exists>x y. map_of a k = Some x \<and> map_of b k = Some y \<and> sameUpToKeyOrder x y)"
    by blast
  show "sameUpToKeyOrder (JObj a) w"
    unfolding w by (rule sameUpToKeyOrder.objects) (rule r)
qed

lemma sameUpToKeyOrder_arr:
  "sameUpToKeyOrder (JArr xs) w \<longleftrightarrow> (\<exists>ys. w = JArr ys \<and> list_all2 sameUpToKeyOrder xs ys)"
proof
  assume "sameUpToKeyOrder (JArr xs) w"
  then show "\<exists>ys. w = JArr ys \<and> list_all2 sameUpToKeyOrder xs ys"
  proof cases
    case same
    have "list_all2 sameUpToKeyOrder xs xs"
      by (rule list_all2_refl) (rule sameUpToKeyOrder.same)
    with same show ?thesis by blast
  next
    case (arrays ys)
    then show ?thesis by blast
  qed
next
  assume "\<exists>ys. w = JArr ys \<and> list_all2 sameUpToKeyOrder xs ys"
  then show "sameUpToKeyOrder (JArr xs) w" by (blast intro: sameUpToKeyOrder.arrays)
qed

lemma sameUpToKeyOrder_prim:
  "\<not> isObject v \<Longrightarrow> sameUpToKeyOrder v w \<longleftrightarrow> w = v"
  by (auto simp: isObject_def elim: sameUpToKeyOrder.cases intro: sameUpToKeyOrder.same)

lemma sameUpToKeyOrder_simps [simp]:
  "sameUpToKeyOrder JUndef w \<longleftrightarrow> w = JUndef"
  "sameUpToKeyOrder JNull w \<longleftrightarrow> w = JNull"
  "sameUpToKeyOrder (JBool b) w \<longleftrightarrow> w = JBool b"
  "sameUpToKeyOrder (JNum n) w \<longleftrightarrow> w = JNum n"
  "sameUpToKeyOrder (JStr s) w \<longleftrightarrow> w = JStr s"
  by (simp_all add: sameUpToKeyOrder_prim isObject_def)

lemma sameUpToKeyOrder_lookup:
  assumes "sameUpToKeyOrder (JObj a) (JObj b)"
  shows "sameUpToKeyOrder (lookup a k) (lookup b k)"
proof -
  from assms have "(map_of a k = None \<and> map_of b k = None) \<or>
      (\<exists>x y. map_of a k = Some x \<and> map_of b k = Some y \<and> sameUpToKeyOrder x y)"
    unfolding sameUpToKeyOrder_obj by blast
  then show ?thesis
    unfolding lookup_def by (elim disjE exE conjE) (simp_all add: sameUpToKeyOrder.same)
qed

lemma sameOutcome_simps [simp]:
  "sameOutcome (Inl e) n \<longleftrightarrow> n = Inl e"
  "sameOutcome (Inr x) (Inr y) \<longleftrightarrow> sameUpToKeyOrder x y"
  "sameOutcome (Inr x) (Inl e) \<longleftrightarrow> False"
  by (simp_all add: sameOutcome_def)

lemma sameOutcome_refl [simp]: "sameOutcome m m"
  by (cases m) (simp_all add: sameUpToKeyOrder.same)

lemma sameOutcome_thenE:
  assumes "sameOutcome m n" and "\<And>x y. sameUpToKeyOrder x y \<Longrightarrow> sameOutcome (f x) (g y)"
  shows "sameOutcome (thenE m f) (thenE n g)"
  using assms by (cases m; cases n) simp_all

lemma sameUpToKeyOrder_getProp:
  assumes "sameUpToKeyOrder v w"
  shows "sameOutcome (getProp v k) (getProp w k)"
proof (cases v)
  case (JObj a)
  with assms obtain b where "w = JObj b" by (auto simp: sameUpToKeyOrder_obj)
  with JObj assms show ?thesis by (simp add: sameUpToKeyOrder_lookup)
next
  case (JArr xs)
  with assms obtain ys where "w = JArr ys" "list_all2 sameUpToKeyOrder xs ys"
    by (auto simp: sameUpToKeyOrder_arr)
  with JArr show ?thesis
    by (auto simp: list_all2_lengthD list_all2_nthD split: option.splits)
qed (use assms in simp_all)

lemma sameUpToKeyOrder_kind:
  assumes "sameUpToKeyOrder v w"
  shows "truthy w = truthy v" and "isObject w = isObject v" and "isArray w = isArray v"
  using assms
  by (cases v; auto simp: sameUpToKeyOrder_obj sameUpToKeyOrder_arr truthy_def isObject_def isArray_def)+

lemma sameUpToKeyOrder_update:
  assumes "sameUpToKeyOrder (JObj a) (JObj b)" and "sameUpToKeyOrder x y"
  shows "sameUpToKeyOrder (JObj (AList.update k x a)) (JObj (AList.update k y b))"
proof (rule sameUpToKeyOrder.objects, rule allI)
  fix k'
  from assms(1) have "(map_of a k' = None \<and> map_of b k' = None) \<or>
      (\<exists>x y. map_of a k' = Some x \<and> map_of b k' = Some y \<and> sameUpToKeyOrder x y)"
    unfolding sameUpToKeyOrder_obj by blast
  with assms(2)
  show "(map_of (AList.update k x a) k' = None \<and> map_of (AList.update k y b) k' = None) \<or>
      (\<exists>u v. map_of (AList.update k x a) k' = Some u \<and> map_of (AList.update k y b) k' = Some v \<and>
         sameUpToKeyOrder u v)"
    by (cases "k' = k") (simp_all add: update_conv')
qed

lemma sameUpToKeyOrder_delete:
  assumes "sameUpToKeyOrder (JObj a) (JObj b)"
  shows "sameUpToKeyOrder (JObj (AList.delete k a)) (JObj (AList.delete k b))"
proof (rule sameUpToKeyOrder.objects, rule allI)
  fix k'
  from assms(1) have "(map_of a k' = None \<and> map_of b k' = None) \<or>
      (\<exists>x y. map_of a k' = Some x \<and> map_of b k' = Some y \<and> sameUpToKeyOrder x y)"
    unfolding sameUpToKeyOrder_obj by blast
  then
  show "(map_of (AList.delete k a) k' = None \<and> map_of (AList.delete k b) k' = None) \<or>
      (\<exists>u v. map_of (AList.delete k a) k' = Some u \<and> map_of (AList.delete k b) k' = Some v \<and>
         sameUpToKeyOrder u v)"
    by (cases "k' = k") (simp_all add: delete_conv')
qed

lemma sameUpToKeyOrder_absent:
  assumes "sameUpToKeyOrder (JObj a) (JObj b)"
  shows "map_of b k = None \<longleftrightarrow> map_of a k = None"
proof -
  from assms have "(map_of a k = None \<and> map_of b k = None) \<or>
      (\<exists>x y. map_of a k = Some x \<and> map_of b k = Some y \<and> sameUpToKeyOrder x y)"
    unfolding sameUpToKeyOrder_obj by blast
  then show ?thesis by auto
qed

lemma sameUpToKeyOrder_setProp:
  assumes "sameUpToKeyOrder v w" and "sameUpToKeyOrder x y"
  shows "sameOutcome (setProp v k x) (setProp w k y)"
proof (cases v)
  case (JObj a)
  with assms obtain b where w: "w = JObj b" by (auto simp: sameUpToKeyOrder_obj)
  with JObj assms sameUpToKeyOrder_absent [of a b k] show ?thesis
    by (simp add: sameUpToKeyOrder_update)
next
  case (JArr xs)
  with assms obtain ys where w: "w = JArr ys" and l: "list_all2 sameUpToKeyOrder xs ys"
    by (auto simp: sameUpToKeyOrder_arr)
  from l assms(2) have "list_all2 sameUpToKeyOrder (xs[i := x]) (ys[i := y])" for i
    by (simp add: list_all2_update_cong)
  moreover from l assms(2) have "list_all2 sameUpToKeyOrder (xs @ [x]) (ys @ [y])"
    by (simp add: list_all2_appendI)
  ultimately show ?thesis
    using JArr w list_all2_lengthD [OF l]
    by (auto simp: sameUpToKeyOrder_arr split: option.splits)
qed (use assms in simp_all)

lemma sameUpToKeyOrder_deleteProp:
  assumes "sameUpToKeyOrder v w"
  shows "sameOutcome (deleteProp v k) (deleteProp w k)"
proof (cases v)
  case (JObj a)
  with assms obtain b where w: "w = JObj b" by (auto simp: sameUpToKeyOrder_obj)
  with JObj assms show ?thesis by (simp add: sameUpToKeyOrder_delete)
next
  case (JArr xs)
  with assms obtain ys where w: "w = JArr ys" by (auto simp: sameUpToKeyOrder_arr)
  with JArr assms show ?thesis by simp
qed (use assms in simp_all)

lemma sameUpToKeyOrder_getPath:
  "sameUpToKeyOrder v w \<Longrightarrow> sameOutcome (getPath v ks) (getPath w ks)"
proof (induction ks arbitrary: v w)
  case Nil
  then show ?case by (simp add: getPath.simps)
next
  case (Cons k ks)
  show ?case
    unfolding getPath.simps
    by (rule sameOutcome_thenE) (simp_all add: sameUpToKeyOrder_getProp Cons)
qed

lemma sameUpToKeyOrder_setPath:
  "sameUpToKeyOrder v w \<Longrightarrow> sameUpToKeyOrder x y \<Longrightarrow> sameOutcome (setPath v ks x) (setPath w ks y)"
proof (induction v ks x arbitrary: w rule: setPath.induct)
  case (1 v x)
  then show ?case by (simp add: setPath.simps)
next
  case (2 v k x)
  then show ?case by (simp add: setPath.simps sameUpToKeyOrder_setProp)
next
  case (3 v k k2 ks x)
  show ?case
    unfolding setPath.simps
  proof (rule sameOutcome_thenE)
    show "sameOutcome (getProp v k) (getProp w k)"
      using "3.prems"(1) by (rule sameUpToKeyOrder_getProp)
  next
    fix c d
    assume cd: "sameUpToKeyOrder c d"
    show "sameOutcome (thenE (setPath c (k2 # ks) x) (setProp v k))
            (thenE (setPath d (k2 # ks) y) (setProp w k))"
    proof (rule sameOutcome_thenE)
      show "sameOutcome (setPath c (k2 # ks) x) (setPath d (k2 # ks) y)"
        using cd "3.prems"(2) by (rule "3.IH")
    next
      fix c' d'
      assume "sameUpToKeyOrder c' d'"
      with "3.prems"(1) show "sameOutcome (setProp v k c') (setProp w k d')"
        by (rule sameUpToKeyOrder_setProp)
    qed
  qed
qed

lemma sameUpToKeyOrder_baseGet:
  "sameUpToKeyOrder v w \<Longrightarrow> sameUpToKeyOrder (baseGet v ks) (baseGet w ks)"
proof (induction ks arbitrary: v w)
  case Nil
  then show ?case by simp
next
  case (Cons k ks)
  from sameUpToKeyOrder_getProp [OF Cons.prems, of k] show ?case
    by (cases "getProp v k"; cases "getProp w k") (simp_all add: Cons.IH)
qed

lemma sameUpToKeyOrder_lodash_head:
  assumes "sameUpToKeyOrder v w"
  shows "sameUpToKeyOrder (lodash_head v) (lodash_head w)"
  using sameUpToKeyOrder_kind(1) [OF assms]
    sameUpToKeyOrder_kind(1) [OF sameUpToKeyOrder_baseGet [OF assms, of "[''length'']"]]
    sameUpToKeyOrder_baseGet [OF assms, of "[''0'']"]
  by (simp add: lodash_head_def)

subsection \<open>The rules are insensitive to key order\<close>

lemma insensitive_setPath: "insensitive (\<lambda>v. setPath v ks c)"
  by (simp add: insensitive_def sameUpToKeyOrder_setPath sameUpToKeyOrder.same)

lemma insensitive_setProp: "insensitive (\<lambda>v. setProp v k c)"
  by (simp add: insensitive_def sameUpToKeyOrder_setProp sameUpToKeyOrder.same)

lemma insensitive_deleteProp: "insensitive (\<lambda>v. deleteProp v k)"
  by (simp add: insensitive_def sameUpToKeyOrder_deleteProp)

lemma insensitive_Inr: "insensitive Inr"
  by (simp add: insensitive_def)

lemma insensitive_thenE: "insensitive f \<Longrightarrow> insensitive g \<Longrightarrow> insensitive (\<lambda>v. thenE (f v) g)"
  unfolding insensitive_def by (auto intro: sameOutcome_thenE)

lemma insensitive_if: "(c \<Longrightarrow> insensitive f) \<Longrightarrow> (\<not> c \<Longrightarrow> insensitive g) \<Longrightarrow> insensitive (\<lambda>v. if c then f v else g v)"
  by (simp add: insensitive_def)

lemmas insensitive_intros =
  insensitive_if insensitive_thenE insensitive_setPath insensitive_setProp insensitive_deleteProp insensitive_Inr

lemma insensitive_prepareOrigins: "insensitive (prepareOrigins p)"
  unfolding insensitive_def
proof (intro allI impI)
  fix x y
  assume xy: "sameUpToKeyOrder x y"
  show "sameOutcome (prepareOrigins p x) (prepareOrigins p y)"
    unfolding prepareOrigins_def Let_def
  proof (rule sameOutcome_thenE)
    show "sameOutcome (getProp x ''Origins'') (getProp y ''Origins'')"
      using xy by (rule sameUpToKeyOrder_getProp)
  next
    fix o1 o2
    assume "sameUpToKeyOrder o1 o2"
    then have h: "isObject (lodash_head o2) = isObject (lodash_head o1)"
      by (intro sameUpToKeyOrder_kind sameUpToKeyOrder_lodash_head)
    let ?rest = "\<lambda>headers v.
        thenE (setPath v [''Origins'', ''0'', ''OriginCustomHeaders''] headers) (\<lambda>dc.
        thenE (setPath dc [''Origins'', ''0'', ''OriginPath''] (JStr (''/'' @ stage p))) (\<lambda>dc.
          setPath dc [''Origins'', ''0'', ''OriginPath'']
            (if truthy (getConfig p [''httpApi''] (JBool False)) then JStr []
             else JStr (''/'' @ stage p))))"
    have "insensitive (?rest headers)" for headers
      by (intro insensitive_intros)
    with xy have r: "sameOutcome (?rest headers x) (?rest headers y)" for headers
      by (simp add: insensitive_def)
    show "sameOutcome
       (thenE (array_map customHeader (getConfig p [''originCustomHeaders''] (JArr [])))
          (\<lambda>headers. if \<not> isObject (lodash_head o1) then Inl TypeError else ?rest headers x))
       (thenE (array_map customHeader (getConfig p [''originCustomHeaders''] (JArr [])))
          (\<lambda>headers. if \<not> isObject (lodash_head o2) then Inl TypeError else ?rest headers y))"
    proof (cases "array_map customHeader (getConfig p [''originCustomHeaders''] (JArr []))")
      case (Inl e)
      then show ?thesis by (simp only: thenE_Inl sameOutcome_refl)
    next
      case (Inr headers)
      show ?thesis
      proof (cases "isObject (lodash_head o1)")
        case True
        with h r [of headers] show ?thesis
          by (simp only: Inr thenE_Inr not_True_eq_False if_False)
      next
        case False
        with h show ?thesis
          by (simp only: Inr thenE_Inr not_False_eq_True if_True sameOutcome_refl)
      qed
    qed
  qed
qed

lemma insensitive_each:
  "insensitive (prepareLogging p)" "insensitive (prepareDomain p)"
  "insensitive (preparePriceClass p)" "insensitive (prepareCookies p)"
  "insensitive (prepareHeaders p)" "insensitive (prepareTTL p)"
  "insensitive (preparePolicies p)" "insensitive (prepareQueryString p)"
  "insensitive (prepareComment p)" "insensitive (prepareCertificate p)"
  "insensitive (prepareWaf p)" "insensitive (prepareCompress p)"
  "insensitive (prepareMinimumProtocolVersion p)"
  unfolding rule_defs(1-3,5-14) Let_def
  by (intro insensitive_intros)+

lemma insensitive_rules: "r \<in> set (rules p) \<Longrightarrow> insensitive r"
  unfolding rules_def
  by (auto simp: insensitive_each insensitive_prepareOrigins)

lemma insensitive_runRules: "(\<And>r. r \<in> set rs \<Longrightarrow> insensitive r) \<Longrightarrow> insensitive (runRules rs)"
proof (induction rs)
  case Nil
  show ?case by (simp add: insensitive_def)
next
  case (Cons r rs)
  have "insensitive (\<lambda>v. thenE (r v) (runRules rs))"
    by (rule insensitive_thenE) (simp_all add: Cons)
  then show ?case by (simp add: insensitive_def)
qed

subsection \<open>\<open>prepareTTL\<close> and \<open>preparePolicies\<close> commute up to key order\<close>

lemma setPath2_obj:
  assumes "lookup kvs D = JObj d" and "parse_index k = None"
  shows "setPath (JObj kvs) [D, k] v = Inr (JObj (AList.update D (JObj (AList.update k v d)) kvs))"
proof -
  from assms(1) have "map_of kvs D \<noteq> None" by (auto simp: lookup_def split: option.splits)
  with assms show ?thesis by (simp add: setPath.simps)
qed

lemma setPath2_fail:
  assumes "\<not> (\<exists>kvs d. x = JObj kvs \<and> lookup kvs D = JObj d)" and "parse_index k = None"
    and "parse_index D = None" and "D \<noteq> ''length''"
  shows "setPath x [D, k] v = Inl (writeError x D)"
proof (cases x)
  case (JObj kvs)
  with assms(1) have n: "lookup kvs D \<noteq> JObj d" for d by simp
  show ?thesis
    using JObj assms(2) n
    by (cases "lookup kvs D") (auto simp: setPath.simps writeError_def isArray_def)
qed (use assms in \<open>simp_all add: setPath.simps writeError_def isArray_def\<close>)

lemma lookup_present: "lookup kvs D = JObj d \<Longrightarrow> map_of kvs D = Some (JObj d)"
  by (auto simp: lookup_def split: option.splits)

lemma prepareTTL_obj:
  assumes "lookup kvs ''DefaultCacheBehavior'' = JObj d"
  shows "prepareTTL p (JObj kvs) =
           Inr (JObj (AList.update ''DefaultCacheBehavior'' (JObj (ttlWrites p d)) kvs))"
  using assms update_triv [OF lookup_present [OF assms]]
  by (simp add: prepareTTL_def ttlWrites_def Let_def setPath2_obj is_digit_def)

lemma preparePolicies_obj:
  assumes "lookup kvs ''DefaultCacheBehavior'' = JObj d"
  shows "preparePolicies p (JObj kvs) =
           Inr (JObj (AList.update ''DefaultCacheBehavior'' (JObj (policyWrites p d)) kvs))"
  using assms update_triv [OF lookup_present [OF assms]]
  by (simp add: preparePolicies_def policyWrites_def Let_def setPath2_obj is_digit_def)

lemma prepareTTL_fail:
  assumes "\<not> (\<exists>kvs d. x = JObj kvs \<and> lookup kvs ''DefaultCacheBehavior'' = JObj d)"
  shows "prepareTTL p x =
           (if truthy (getConfig p [''ttl''] JNull) then Inl (writeError x ''DefaultCacheBehavior'')
            else Inr x)"
  by (simp add: prepareTTL_def Let_def setPath2_fail [OF assms] is_digit_def)

lemma preparePolicies_fail:
  assumes "\<not> (\<exists>kvs d. x = JObj kvs \<and> lookup kvs ''DefaultCacheBehavior'' = JObj d)"
  shows "preparePolicies p x =
           (if truthy (getConfig p [''cachePolicyId''] JNull) \<or>
               truthy (getConfig p [''originRequestPolicyId''] JNull)
            then Inl (writeError x ''DefaultCacheBehavior'') else Inr x)"
  by (simp add: preparePolicies_def Let_def setPath2_fail [OF assms] is_digit_def)

lemma writes_commute:
  "map_of (policyWrites p (ttlWrites p d)) = map_of (ttlWrites p (policyWrites p d))"
  by (auto simp: policyWrites_def ttlWrites_def Let_def update_conv' fun_upd_twist)

lemma same_map_sameUpToKeyOrder:
  assumes "map_of a = map_of b"
  shows "sameUpToKeyOrder (JObj a) (JObj b)"
proof (rule sameUpToKeyOrder.objects, rule allI)
  fix k
  show "(map_of a k = None \<and> map_of b k = None) \<or>
      (\<exists>x y. map_of a k = Some x \<and> map_of b k = Some y \<and> sameUpToKeyOrder x y)"
    using assms by (cases "map_of a k") (auto intro: sameUpToKeyOrder.same)
qed

lemma ttl_policies_commute:
  "sameOutcome (thenE (prepareTTL p x) (preparePolicies p)) (thenE (preparePolicies p x) (prepareTTL p))"
proof (cases "\<exists>kvs d. x = JObj kvs \<and> lookup kvs ''DefaultCacheBehavior'' = JObj d")
  case True
  then obtain kvs d where x: "x = JObj kvs" and d: "lookup kvs ''DefaultCacheBehavior'' = JObj d"
    by blast
  let ?D = "''DefaultCacheBehavior''"
  have "thenE (prepareTTL p x) (preparePolicies p) =
      Inr (JObj (AList.update ?D (JObj (policyWrites p (ttlWrites p d))) kvs))"
    unfolding x prepareTTL_obj [OF d] thenE_Inr
    by (subst preparePolicies_obj [where d = "ttlWrites p d"]) simp_all
  moreover have "thenE (preparePolicies p x) (prepareTTL p) =
      Inr (JObj (AList.update ?D (JObj (ttlWrites p (policyWrites p d))) kvs))"
    unfolding x preparePolicies_obj [OF d] thenE_Inr
    by (subst prepareTTL_obj [where d = "policyWrites p d"]) simp_all
  moreover have "sameUpToKeyOrder
      (JObj (AList.update ?D (JObj (policyWrites p (ttlWrites p d))) kvs))
      (JObj (AList.update ?D (JObj (ttlWrites p (policyWrites p d))) kvs))"
    by (intro sameUpToKeyOrder_update sameUpToKeyOrder.same same_map_sameUpToKeyOrder writes_commute)
  ultimately show ?thesis by simp
next
  case False
  show ?thesis
    unfolding prepareTTL_fail [OF False] preparePolicies_fail [OF False]
    by (simp add: prepareTTL_fail [OF False] preparePolicies_fail [OF False])
qed

lemma rules_split_at_ttl:
  "rules p = take 6 (rules p) @ [prepareTTL p, preparePolicies p] @ drop 8 (rules p)"
  "rules_spec_order p = take 6 (rules p) @ [preparePolicies p, prepareTTL p] @ drop 8 (rules p)"
  by (simp_all add: rules_def rules_spec_order_def)

lemma runRules_two:
  "runRules (pre @ [a, b] @ post) x =
     thenE (runRules pre x) (\<lambda>y. thenE (thenE (a y) b) (runRules post))"
proof -
  have "runRules ([a, b] @ post) = (\<lambda>y. thenE (thenE (a y) b) (runRules post))"
  proof (rule ext)
    fix y
    show "runRules ([a, b] @ post) y = thenE (thenE (a y) b) (runRules post)"
      by (cases "a y") simp_all
  qed
  then show ?thesis by (simp only: runRules_append)
qed

lemma rules_orders_agree:
  "sameOutcome (runRules (rules p) dc) (runRules (rules_spec_order p) dc)"
proof -
  have post: "insensitive (runRules (drop 8 (rules p)))"
    by (rule insensitive_runRules) (auto dest: in_set_dropD insensitive_rules)
  have "sameOutcome
      (thenE (thenE (prepareTTL p y) (preparePolicies p)) (runRules (drop 8 (rules p))))
      (thenE (thenE (preparePolicies p y) (prepareTTL p)) (runRules (drop 8 (rules p))))" for y
    using post by (intro sameOutcome_thenE ttl_policies_commute) (simp add: insensitive_def)
  then have "sameOutcome
      (thenE (runRules (take 6 (rules p)) dc)
         (\<lambda>y. thenE (thenE (prepareTTL p y) (preparePolicies p)) (runRules (drop 8 (rules p)))))
      (thenE (runRules (take 6 (rules p)) dc)
         (\<lambda>y. thenE (thenE (preparePolicies p y) (prepareTTL p)) (runRules (drop 8 (rules p)))))"
    by (cases "runRules (take 6 (rules p)) dc") simp_all
  then show ?thesis
    by (subst rules_split_at_ttl(1), subst rules_split_at_ttl(2)) (simp only: runRules_two)
qed

section \<open>The merge, key by key\<close>





section \<open>The certificate block\<close>

lemma certificate_block:
  assumes "runRules (rules p) dc = Inr dc'"
  shows "config p [''certificate''] = JUndef \<or> config p [''certificate''] = JNull
           \<Longrightarrow> \<not> hasPath dc' [''ViewerCertificate'']"
    and "config p [''certificate''] \<noteq> JUndef \<Longrightarrow> config p [''certificate''] \<noteq> JNull
           \<Longrightarrow> hasPath dc' [''ViewerCertificate'', ''AcmCertificateArn''] \<and>
               getPath dc' [''ViewerCertificate'', ''AcmCertificateArn''] =
                 Inr (config p [''certificate''])"
proof -
  from assms obtain x10 x11 x12 x13 where
    r11: "prepareCertificate p x10 = Inr x11" and r12: "prepareWaf p x11 = Inr x12"
    and r13: "prepareCompress p x12 = Inr x13"
    and r14: "prepareMinimumProtocolVersion p x13 = Inr dc'"
    by (rule rules_run)
  {
    assume "config p [''certificate''] = JUndef \<or> config p [''certificate''] = JNull"
    with effect_prepareCertificate(1) [OF r11] have "\<not> hasPath x11 [''ViewerCertificate'']" by simp
    moreover have "hasPath x12 [''ViewerCertificate''] = hasPath x11 [''ViewerCertificate'']"
      by (rule keeps_apply [OF keeps_prepareWaf r12]) (simp add: path_simps)
    moreover have "hasPath x13 [''ViewerCertificate''] = hasPath x12 [''ViewerCertificate'']"
      by (rule keeps_apply [OF keeps_prepareCompress r13]) (simp add: path_simps)
    ultimately have "\<not> hasPath x13 [''ViewerCertificate'']" by simp
    with r14 show "\<not> hasPath dc' [''ViewerCertificate'']"
      by (simp add: prepareMinimumProtocolVersion_no_block)
  next
    let ?a = "[''ViewerCertificate'', ''AcmCertificateArn'']"
    assume "config p [''certificate''] \<noteq> JUndef" "config p [''certificate''] \<noteq> JNull"
    with effect_prepareCertificate(2) [OF r11]
    have "hasPath x11 ?a \<and> getPath x11 ?a = Inr (config p [''certificate''])" by simp
    moreover have "getPath x12 ?a = getPath x11 ?a" "hasPath x12 ?a = hasPath x11 ?a"
      by (rule keeps_apply [OF keeps_prepareWaf r12], simp add: path_simps)+
    moreover have "getPath x13 ?a = getPath x12 ?a" "hasPath x13 ?a = hasPath x12 ?a"
      by (rule keeps_apply [OF keeps_prepareCompress r13], simp add: path_simps)+
    moreover have "getPath dc' ?a = getPath x13 ?a" "hasPath dc' ?a = hasPath x13 ?a"
      by (rule keeps_apply [OF keeps_prepareMinimumProtocolVersion r14], simp add: path_simps)+
    ultimately show "hasPath dc' ?a \<and> getPath dc' ?a = Inr (config p [''certificate''])" by simp
  }
qed

lemma no_certificate_no_block:
  assumes "prepareResources p resources = Inr out"
    and "config p [''certificate''] = JUndef \<or> config p [''certificate''] = JNull"
  shows "\<not> hasPath out (distributionConfigPath @ [''ViewerCertificate''])"
proof -
  from assms(1) obtain dc dc' where run: "runRules (rules p) dc = Inr dc'"
    and has: "\<And>bs. bs \<noteq> [] \<Longrightarrow> hasPath out (distributionConfigPath @ bs) = hasPath dc' bs"
    by (rule prepareResources_paths) blast
  from certificate_block(1) [OF run assms(2)] show ?thesis by (simp add: has)
qed

section \<open>The blocks that a missing or null field removes\<close>

lemma effect_prepareWaf:
  assumes "prepareWaf p x = Inr y"
  shows "config p [''waf''] = JUndef \<or> config p [''waf''] = JNull \<Longrightarrow> \<not> hasPath y [''WebACLId'']"
    and "config p [''waf''] \<noteq> JUndef \<Longrightarrow> config p [''waf''] \<noteq> JNull
           \<Longrightarrow> hasPath y [''WebACLId''] \<and> getPath y [''WebACLId''] = Inr (config p [''waf''])"
proof -
  assume "config p [''waf''] = JUndef \<or> config p [''waf''] = JNull"
  with assms have "deleteProp x ''WebACLId'' = Inr y"
    by (auto simp: prepareWaf_def getConfig_config)
  then show "\<not> hasPath y [''WebACLId'']"
    by (simp add: deleteProp_hasPath is_digit_def)
next
  assume "config p [''waf''] \<noteq> JUndef" "config p [''waf''] \<noteq> JNull"
  with assms have "setPath x [''WebACLId''] (config p [''waf'']) = Inr y"
    by (auto simp: prepareWaf_def getConfig_config setProp_as_setPath)
  from setPath_hasPath [OF this] setPath_get [OF this]
  show "hasPath y [''WebACLId''] \<and> getPath y [''WebACLId''] = Inr (config p [''waf''])" by simp
qed

lemma null_or_absent_deletes:
  assumes run: "runRules (rules p) dc = Inr dc'"
  shows "config p [''logging'', ''bucket''] = JUndef \<or> config p [''logging'', ''bucket''] = JNull
           \<Longrightarrow> \<not> hasPath dc' [''Logging'']"
    and "config p [''domain''] = JUndef \<or> config p [''domain''] = JNull
           \<Longrightarrow> \<not> hasPath dc' [''Aliases'']"
    and "config p [''waf''] = JUndef \<or> config p [''waf''] = JNull
           \<Longrightarrow> \<not> hasPath dc' [''WebACLId'']"
proof -
  assume c: "config p [''logging'', ''bucket''] = JUndef \<or> config p [''logging'', ''bucket''] = JNull"
  from run obtain x z where "(rules p ! 0) x = Inr z"
    and post: "runRules (drop (Suc 0) (rules p)) z = Inr dc'"
    by (rule rules_at [where n = 0]) simp
  then have "prepareLogging p x = Inr z" by (simp add: rules_def)
  from effect_prepareLogging(1) [OF this c] have "\<not> hasPath z [''Logging'']" .
  moreover have "keeps (runRules (drop (Suc 0) (rules p))) [''Logging'']"
    by (rule keeps_runRules) (auto simp: rules_def path_simps intro!: keeps_rules)
  ultimately show "\<not> hasPath dc' [''Logging'']"
    using post by (simp add: keeps_def)
next
  assume c: "config p [''domain''] = JUndef \<or> config p [''domain''] = JNull"
  from run obtain x z where "(rules p ! 1) x = Inr z"
    and post: "runRules (drop (Suc 1) (rules p)) z = Inr dc'"
    by (rule rules_at [where n = 1]) simp
  then have "prepareDomain p x = Inr z" by (simp add: rules_def)
  from effect_prepareDomain(1) [OF this c] have "\<not> hasPath z [''Aliases'']" .
  moreover have "keeps (runRules (drop (Suc 1) (rules p))) [''Aliases'']"
    by (rule keeps_runRules) (auto simp: rules_def path_simps intro!: keeps_rules)
  ultimately show "\<not> hasPath dc' [''Aliases'']"
    using post by (simp add: keeps_def)
next
  assume c: "config p [''waf''] = JUndef \<or> config p [''waf''] = JNull"
  from run obtain x z where "(rules p ! 11) x = Inr z"
    and post: "runRules (drop (Suc 11) (rules p)) z = Inr dc'"
    by (rule rules_at [where n = 11]) simp
  then have "prepareWaf p x = Inr z" by (simp add: rules_def)
  from effect_prepareWaf(1) [OF this c] have "\<not> hasPath z [''WebACLId'']" .
  moreover have "keeps (runRules (drop (Suc 11) (rules p))) [''WebACLId'']"
    by (rule keeps_runRules) (auto simp: rules_def path_simps intro!: keeps_rules)
  ultimately show "\<not> hasPath dc' [''WebACLId'']"
    using post by (simp add: keeps_def)
qed

section \<open>The places that each rule names\<close>

lemma places_prepareLogging:
  "list_all (\<lambda>ks. diverge ks bs) (rulePlaces p ! 0) \<Longrightarrow> keeps (prepareLogging p) bs"
  unfolding prepareLogging_def Let_def rulePlaces_def
  by (intro keeps_intros) simp_all

lemma places_prepareDomain:
  "list_all (\<lambda>ks. diverge ks bs) (rulePlaces p ! 1) \<Longrightarrow> keeps (prepareDomain p) bs"
  by (rule keeps_prepareDomain) (simp_all add: rulePlaces_def)

lemma places_preparePriceClass:
  "list_all (\<lambda>ks. diverge ks bs) (rulePlaces p ! 2) \<Longrightarrow> keeps (preparePriceClass p) bs"
  by (rule keeps_preparePriceClass) (simp_all add: rulePlaces_def)

lemma places_prepareOrigins:
  "list_all (\<lambda>ks. diverge ks bs) (rulePlaces p ! 3) \<Longrightarrow> keeps (prepareOrigins p) bs"
  by (rule keeps_prepareOrigins) (simp_all add: rulePlaces_def)

lemma places_prepareCookies:
  "list_all (\<lambda>ks. diverge ks bs) (rulePlaces p ! 4) \<Longrightarrow> keeps (prepareCookies p) bs"
  unfolding prepareCookies_def Let_def rulePlaces_def
  by (intro keeps_intros) simp_all

lemma places_prepareHeaders:
  "list_all (\<lambda>ks. diverge ks bs) (rulePlaces p ! 5) \<Longrightarrow> keeps (prepareHeaders p) bs"
  by (rule keeps_prepareHeaders) (simp_all add: rulePlaces_def)

lemma places_prepareTTL:
  "list_all (\<lambda>ks. diverge ks bs) (rulePlaces p ! 6) \<Longrightarrow> keeps (prepareTTL p) bs"
  unfolding prepareTTL_def Let_def rulePlaces_def
  by (intro keeps_intros) simp_all

lemma places_preparePolicies:
  "list_all (\<lambda>ks. diverge ks bs) (rulePlaces p ! 7) \<Longrightarrow> keeps (preparePolicies p) bs"
  unfolding preparePolicies_def Let_def rulePlaces_def
  by (intro keeps_intros) simp_all

lemma places_prepareQueryString:
  "list_all (\<lambda>ks. diverge ks bs) (rulePlaces p ! 8) \<Longrightarrow> keeps (prepareQueryString p) bs"
  unfolding prepareQueryString_def Let_def rulePlaces_def
  by (intro keeps_intros) simp_all

lemma places_prepareComment:
  "list_all (\<lambda>ks. diverge ks bs) (rulePlaces p ! 9) \<Longrightarrow> keeps (prepareComment p) bs"
  by (rule keeps_prepareComment) (simp_all add: rulePlaces_def)

lemma places_prepareCertificate:
  "list_all (\<lambda>ks. diverge ks bs) (rulePlaces p ! 10) \<Longrightarrow> keeps (prepareCertificate p) bs"
  unfolding prepareCertificate_def Let_def rulePlaces_def
  by (intro keeps_intros) simp_all

lemma places_prepareWaf:
  "list_all (\<lambda>ks. diverge ks bs) (rulePlaces p ! 11) \<Longrightarrow> keeps (prepareWaf p) bs"
  by (rule keeps_prepareWaf) (simp_all add: rulePlaces_def)

lemma places_prepareCompress:
  "list_all (\<lambda>ks. diverge ks bs) (rulePlaces p ! 12) \<Longrightarrow> keeps (prepareCompress p) bs"
  by (rule keeps_prepareCompress) (simp_all add: rulePlaces_def)

lemma places_prepareMinimumProtocolVersion:
  "list_all (\<lambda>ks. diverge ks bs) (rulePlaces p ! 13) \<Longrightarrow> keeps (prepareMinimumProtocolVersion p) bs"
  unfolding prepareMinimumProtocolVersion_def Let_def rulePlaces_def
  by (intro keeps_intros) simp_all

lemmas places_rules =
  places_prepareLogging places_prepareDomain places_preparePriceClass places_prepareOrigins
  places_prepareCookies places_prepareHeaders places_prepareTTL places_preparePolicies
  places_prepareQueryString places_prepareComment places_prepareCertificate places_prepareWaf
  places_prepareCompress places_prepareMinimumProtocolVersion

lemma length_rulePlaces [simp]: "length (rulePlaces p) = 14"
  by (simp add: rulePlaces_def)

lemma length_rules [simp]: "length (rules p) = 14"
  by (simp add: rules_def)

lemma rule_keeps_other_places:
  assumes "n < 14" and "list_all (\<lambda>ks. diverge ks bs) (rulePlaces p ! n)"
  shows "keeps (rules p ! n) bs"
proof -
  from assms(1) consider "n = 0" | "n = 1" | "n = 2" | "n = 3" | "n = 4" | "n = 5" | "n = 6"
    | "n = 7" | "n = 8" | "n = 9" | "n = 10" | "n = 11" | "n = 12" | "n = 13"
    by atomize_elim arith
  then show ?thesis
    using assms(2) by cases (simp_all add: rules_def places_rules)
qed

lemma rules_keep_other_places:
  assumes "\<And>i. i < length rs \<Longrightarrow> list_all (\<lambda>ks. diverge ks bs) (ws ! i) \<Longrightarrow> keeps (rs ! i) bs"
    and "length ws = length rs"
    and "list_all (\<lambda>ks. diverge ks bs) (concat ws)"
  shows "keeps (runRules rs) bs"
proof (rule keeps_runRules)
  fix r
  assume "r \<in> set rs"
  then obtain i where i: "i < length rs" "r = rs ! i" by (auto simp: in_set_conv_nth)
  with assms(2) have "ws ! i \<in> set ws" by simp
  with assms(3) have "list_all (\<lambda>ks. diverge ks bs) (ws ! i)"
    by (auto simp: list_all_iff)
  with assms(1) i show "keeps r bs" by simp
qed


lemma nth_in_others:
  assumes "i < length ws" and "i \<noteq> n"
  shows "ws ! i \<in> set (take n ws @ drop (Suc n) ws)"
proof (cases "i < n")
  case True
  with assms have "take n ws ! i = ws ! i" "i < length (take n ws)" by simp_all
  then have "ws ! i \<in> set (take n ws)" by (metis nth_mem)
  then show ?thesis by simp
next
  case False
  with assms have "drop (Suc n) ws ! (i - Suc n) = ws ! i" "i - Suc n < length (drop (Suc n) ws)"
    by simp_all
  then have "ws ! i \<in> set (drop (Suc n) ws)" by (metis nth_mem)
  then show ?thesis by simp
qed

section \<open>C1: a minimum protocol version without a certificate\<close>

text \<open>
  C1 says that, when \<open>certificate\<close> is absent, the output has no \<open>ViewerCertificate\<close>
  key whatever \<open>minimumProtocolVersion\<close> is, and that a \<open>minimumProtocolVersion\<close>
  configured without a \<open>certificate\<close> is dropped silently, the pipeline completing
  without error. The source does not do that: \<open>prepareCertificate\<close> deletes
  \<open>ViewerCertificate\<close>, and \<open>prepareMinimumProtocolVersion\<close> then assigns to
  \<open>distributionConfig.ViewerCertificate.MinimumProtocolVersion\<close>, a property of
  \<open>undefined\<close>. In the runs that return, an absent \<open>certificate\<close> does leave no
  \<open>ViewerCertificate\<close> key (\<open>no_certificate_no_block\<close>); but by
  \<open>minimumProtocolVersion_without_certificate_never_returns\<close> no template lets a run with a truthy
  \<open>minimumProtocolVersion\<close> and no \<open>certificate\<close> return. On the sample template, with
  \<open>minimumProtocolVersion\<close> set to \<open>TLSv1.2_2021\<close> and no \<open>certificate\<close>,
  \<open>prepareResources\<close> raises a TypeError.
\<close>

theorem minimumProtocolVersion_without_certificate_raises:
  "prepareResources (sample_plugin [(''minimumProtocolVersion'', JStr ''TLSv1.2_2021'')])
     sample_resources = Inl TypeError"
  by (simp add: eval_defs)

section \<open>C2: the merge into the caller's template\<close>




section \<open>C3: the order of the rules\<close>

text \<open>
  C3 says that \<open>prepareResources\<close> equals the fourteen rules applied in the order of
  section 4.2, where Policies comes before TTL. The source calls \<open>prepareTTL\<close> before
  \<open>preparePolicies\<close>. Both write new keys into \<open>DefaultCacheBehavior\<close>, so the two orders
  leave its keys in a different order: with \<open>ttl\<close> and \<open>originRequestPolicyId\<close>
  configured, the results on the sample template differ.
\<close>

theorem spec_order_differs:
  "prepareResources
     (sample_plugin [(''ttl'', JObj [(''default'', JNum 0), (''max'', JNum 60), (''min'', JNum 0)]),
                     (''originRequestPolicyId'', JStr ''orp'')])
     sample_resources \<noteq>
   prepareResources_spec_order
     (sample_plugin [(''ttl'', JObj [(''default'', JNum 0), (''max'', JNum 60), (''min'', JNum 0)]),
                     (''originRequestPolicyId'', JStr ''orp'')])
     sample_resources"
  by (simp add: eval_defs prepareResources_spec_order_def rules_spec_order_def)

text \<open>
  C3 as amended. \<open>prepareResources\<close> applies the fourteen rules in the order of the
  source, TTL before Policies. Applying them in the order of section 4.2 raises the same
  error or gives a result that is the same up to the order of the keys of its objects.
\<close>

theorem spec_order_same_up_to_key_order:
  "sameOutcome (prepareResources p resources) (prepareResources_spec_order p resources)"
  unfolding prepareResources_def prepareResources_spec_order_def
proof (cases "getPath resources distributionConfigPath")
  case (Inl e)
  then show "sameOutcome
      (thenE (getPath resources distributionConfigPath)
         (\<lambda>distributionConfig. thenE (runRules (rules p) distributionConfig)
            (setPath resources distributionConfigPath)))
      (thenE (getPath resources distributionConfigPath)
         (\<lambda>distributionConfig. thenE (runRules (rules_spec_order p) distributionConfig)
            (setPath resources distributionConfigPath)))"
    by simp
next
  case (Inr dc)
  have "sameOutcome (thenE (runRules (rules p) dc) (setPath resources distributionConfigPath))
      (thenE (runRules (rules_spec_order p) dc) (setPath resources distributionConfigPath))"
    by (intro sameOutcome_thenE rules_orders_agree sameUpToKeyOrder_setPath sameUpToKeyOrder.same)
  with Inr show "sameOutcome
      (thenE (getPath resources distributionConfigPath)
         (\<lambda>distributionConfig. thenE (runRules (rules p) distributionConfig)
            (setPath resources distributionConfigPath)))
      (thenE (getPath resources distributionConfigPath)
         (\<lambda>distributionConfig. thenE (runRules (rules_spec_order p) distributionConfig)
            (setPath resources distributionConfigPath)))"
    by simp
qed

theorem spec_order_same_up_to_key_order_witness:
  "sameOutcome
     (prepareResources
        (sample_plugin [(''ttl'', JObj [(''default'', JNum 0), (''max'', JNum 60), (''min'', JNum 0)]),
                     (''originRequestPolicyId'', JStr ''orp'')])
        sample_resources)
     (prepareResources_spec_order
        (sample_plugin [(''ttl'', JObj [(''default'', JNum 0), (''max'', JNum 60), (''min'', JNum 0)]),
                     (''originRequestPolicyId'', JStr ''orp'')])
        sample_resources)"
  by (rule spec_order_same_up_to_key_order)

section \<open>C4: the cache policy and the origin request policy\<close>

text \<open>
  C4 says that a \<open>cachePolicyId\<close> that is present becomes
  \<open>DefaultCacheBehavior.CachePolicyId\<close>, and likewise for \<open>originRequestPolicyId\<close>.
  The source tests \<open>if (cachePolicyId)\<close>: a value that is present but falsy (the empty
  string, \<open>0\<close>, \<open>false\<close>) is not written. With \<open>cachePolicyId\<close> set to the empty string
  the sample template keeps its own policy.
\<close>

theorem falsy_cachePolicyId_not_written:
  "config (sample_plugin [(''cachePolicyId'', JStr [])]) [''cachePolicyId''] = JStr [] \<and>
   outputAt (sample_plugin [(''cachePolicyId'', JStr [])]) sample_resources
     [''DefaultCacheBehavior'', ''CachePolicyId''] = Inr (JStr ''template-policy'')"
  by (simp add: outputAt_def config_def eval_defs)

text \<open>
  C4 as amended. Whenever \<open>prepareResources\<close> returns:
  \<open>DefaultCacheBehavior.CachePolicyId\<close> of the output is the configured \<open>cachePolicyId\<close>
  when that is truthy, and otherwise it is what the template holds there (nothing, when
  the template has no such key); the same holds of \<open>OriginRequestPolicyId\<close> and
  \<open>originRequestPolicyId\<close>. Each of the two fields depends on its own setting only.
\<close>

theorem policies_written_when_truthy:
  assumes "prepareResources p resources = Inr out"
  shows "getPath out (distributionConfigPath @ [''DefaultCacheBehavior'', ''CachePolicyId'']) =
           (if truthy (config p [''cachePolicyId'']) then Inr (config p [''cachePolicyId''])
            else getPath resources (distributionConfigPath @ [''DefaultCacheBehavior'', ''CachePolicyId''])) \<and>
         getPath out (distributionConfigPath @ [''DefaultCacheBehavior'', ''OriginRequestPolicyId'']) =
           (if truthy (config p [''originRequestPolicyId''])
            then Inr (config p [''originRequestPolicyId''])
            else getPath resources
                   (distributionConfigPath @ [''DefaultCacheBehavior'', ''OriginRequestPolicyId''])) \<and>
         (\<not> truthy (config p [''cachePolicyId'']) \<longrightarrow>
            hasPath out (distributionConfigPath @ [''DefaultCacheBehavior'', ''CachePolicyId'']) =
            hasPath resources (distributionConfigPath @ [''DefaultCacheBehavior'', ''CachePolicyId''])) \<and>
         (\<not> truthy (config p [''originRequestPolicyId'']) \<longrightarrow>
            hasPath out (distributionConfigPath @ [''DefaultCacheBehavior'', ''OriginRequestPolicyId'']) =
            hasPath resources
              (distributionConfigPath @ [''DefaultCacheBehavior'', ''OriginRequestPolicyId'']))"
proof -
  let ?c = "[''DefaultCacheBehavior'', ''CachePolicyId'']"
  let ?o = "[''DefaultCacheBehavior'', ''OriginRequestPolicyId'']"
  from assms obtain dc dc' where run: "runRules (rules p) dc = Inr dc'"
    and get0: "\<And>bs. getPath resources (distributionConfigPath @ bs) = getPath dc bs"
    and has0: "\<And>bs. bs \<noteq> [] \<Longrightarrow> hasPath resources (distributionConfigPath @ bs) = hasPath dc bs"
    and get: "\<And>bs. getPath out (distributionConfigPath @ bs) = getPath dc' bs"
    and has: "\<And>bs. bs \<noteq> [] \<Longrightarrow> hasPath out (distributionConfigPath @ bs) = hasPath dc' bs"
    by (rule prepareResources_paths) blast
  from run obtain x z where pre: "runRules (take 7 (rules p)) dc = Inr x"
    and "(rules p ! 7) x = Inr z"
    and post: "runRules (drop (Suc 7) (rules p)) z = Inr dc'"
    by (rule rules_at [where n = 7]) simp
  then have r: "preparePolicies p x = Inr z" by (simp add: rules_def)
  have "keeps (runRules (take 7 (rules p))) ?c"
    by (rule keeps_runRules) (auto simp: rules_def path_simps intro!: keeps_rules)
  moreover have "keeps (runRules (drop (Suc 7) (rules p))) ?c"
    by (rule keeps_runRules) (auto simp: rules_def path_simps intro!: keeps_rules)
  ultimately have c: "getPath x ?c = getPath dc ?c" "hasPath x ?c = hasPath dc ?c"
    "getPath dc' ?c = getPath z ?c" "hasPath dc' ?c = hasPath z ?c"
    using pre post by (simp_all add: keeps_def)
  have "keeps (runRules (take 7 (rules p))) ?o"
    by (rule keeps_runRules) (auto simp: rules_def path_simps intro!: keeps_rules)
  moreover have "keeps (runRules (drop (Suc 7) (rules p))) ?o"
    by (rule keeps_runRules) (auto simp: rules_def path_simps intro!: keeps_rules)
  ultimately have o: "getPath x ?o = getPath dc ?o" "hasPath x ?o = hasPath dc ?o"
    "getPath dc' ?o = getPath z ?o" "hasPath dc' ?o = hasPath z ?o"
    using pre post by (simp_all add: keeps_def)
  from effect_preparePolicies [OF r]
  show ?thesis by (simp add: get has get0 has0 c o)
qed

theorem policies_written_when_truthy_witness:
  "\<exists>out. prepareResources (sample_plugin [(''cachePolicyId'', JStr ''abc'')]) sample_resources = Inr out \<and>
     getPath out (distributionConfigPath @ [''DefaultCacheBehavior'', ''CachePolicyId'']) =
       Inr (JStr ''abc'') \<and>
     getPath out (distributionConfigPath @ [''DefaultCacheBehavior'', ''OriginRequestPolicyId'']) =
       Inr JUndef \<and>
     \<not> hasPath out (distributionConfigPath @ [''DefaultCacheBehavior'', ''OriginRequestPolicyId''])"
proof -
  let ?p = "sample_plugin [(''cachePolicyId'', JStr ''abc'')]"
  have "\<exists>out. prepareResources ?p sample_resources = Inr out"
    by (simp add: eval_defs)
  then obtain out where out: "prepareResources ?p sample_resources = Inr out" ..
  have c: "config ?p [''cachePolicyId''] = JStr ''abc''" "config ?p [''originRequestPolicyId''] = JUndef"
    by (simp_all add: config_def sample_simps lookup_def)
  have t: "getPath sample_resources
             (distributionConfigPath @ [''DefaultCacheBehavior'', ''OriginRequestPolicyId'']) = Inr JUndef"
    "\<not> hasPath sample_resources
             (distributionConfigPath @ [''DefaultCacheBehavior'', ''OriginRequestPolicyId''])"
    by (simp_all add: eval_defs hasKey_def)
  from policies_written_when_truthy [OF out] out show ?thesis
    by (auto simp: c t truthy_def)
qed

section \<open>C5: what the output depends on\<close>

text \<open>
  C5 says that the output is a function of the base template, the configuration map and
  the stage. The source also reads the API gateway name (\<open>prepareComment\<close>): two hosts
  with the same configuration map and stage and different API gateway names give
  different \<open>Comment\<close>s on the same template.
\<close>

theorem output_depends_on_apiGatewayName:
  "custom ((sample_plugin []) \<lparr>apiGatewayName := ''dev-api''\<rparr>) = custom (sample_plugin []) \<and>
   stage ((sample_plugin []) \<lparr>apiGatewayName := ''dev-api''\<rparr>) = stage (sample_plugin []) \<and>
   outputAt (sample_plugin []) sample_resources [''Comment''] =
     Inr (JStr ''Serverless Managed prod-api'') \<and>
   outputAt ((sample_plugin []) \<lparr>apiGatewayName := ''dev-api''\<rparr>) sample_resources [''Comment''] =
     Inr (JStr ''Serverless Managed dev-api'')"
  by (simp add: outputAt_def eval_defs)

text \<open>
  C5 as amended. The result of \<open>prepareResources\<close> is a function of the base template,
  the configuration map, the stage and the API gateway name: two hosts that agree on the
  last three give the same result on the same template, whatever else
  \<open>service.custom\<close> holds. The template that \<open>createDeploymentArtifacts\<close> returns is a
  function of these, the provider's tags and the caller's compiled template.
\<close>

theorem output_determined_by_inputs:
  assumes "config q [] = config p []" and "stage q = stage p"
    and "apiGatewayName q = apiGatewayName p"
  shows "prepareResources q resources = prepareResources p resources \<and>
         (tags q = tags p \<and> compiledCloudFormationTemplate q = compiledCloudFormationTemplate p \<longrightarrow>
            createDeploymentArtifacts q resources = createDeploymentArtifacts p resources)"
proof -
  have "config q f = config p f" for f
    using assms(1) config_from_map [of q f] config_from_map [of p f] by simp
  then have "getConfig q f d = getConfig p f d" for f d
    by (simp add: getConfig_config)
  then have "rules q = rules p"
    using assms(2,3) by (intro rules_cong) auto
  then have "prepareResources q resources = prepareResources p resources"
    by (simp add: prepareResources_def)
  then show ?thesis by (auto simp: createDeploymentArtifacts_def cong: if_cong)
qed

theorem output_determined_by_inputs_witness:
  "config ((sample_plugin []) \<lparr>custom := JObj [(''other'', JNum 1), (''apiCloudFront'', JObj [])]\<rparr>) [] =
     config (sample_plugin []) [] \<and>
   prepareResources
     ((sample_plugin []) \<lparr>custom := JObj [(''other'', JNum 1), (''apiCloudFront'', JObj [])]\<rparr>)
     sample_resources =
     prepareResources (sample_plugin []) sample_resources \<and>
   createDeploymentArtifacts
     ((sample_plugin []) \<lparr>custom := JObj [(''other'', JNum 1), (''apiCloudFront'', JObj [])]\<rparr>)
     sample_resources =
     createDeploymentArtifacts (sample_plugin []) sample_resources"
proof -
  let ?q = "(sample_plugin []) \<lparr>custom := JObj [(''other'', JNum 1), (''apiCloudFront'', JObj [])]\<rparr>"
  have c: "config ?q [] = config (sample_plugin []) []"
    by (simp add: config_def sample_simps lookup_def)
  moreover have "stage ?q = stage (sample_plugin [])" "apiGatewayName ?q = apiGatewayName (sample_plugin [])"
    "tags ?q = tags (sample_plugin [])"
    "compiledCloudFormationTemplate ?q = compiledCloudFormationTemplate (sample_plugin [])"
    by simp_all
  ultimately show ?thesis using output_determined_by_inputs [of ?q "sample_plugin []" sample_resources]
    by simp
qed

section \<open>C6: the aliases follow the configured domain\<close>

text \<open>
  C6. Whenever \<open>prepareResources\<close> returns: if \<open>domain\<close> is absent from the
  configuration map, the distribution config of the output has no \<open>Aliases\<close> key; if
  \<open>domain\<close> is a string \<open>s\<close>, \<open>Aliases\<close> is the one-element list \<open>[s]\<close>; if \<open>domain\<close>
  is a list, \<open>Aliases\<close> is that list.
\<close>

theorem aliases_follow_domain:
  assumes "prepareResources p resources = Inr out"
  shows "(config p [''domain''] = JUndef \<longrightarrow>
            \<not> hasPath out (distributionConfigPath @ [''Aliases''])) \<and>
         (\<forall>s. config p [''domain''] = JStr s \<longrightarrow>
            getPath out (distributionConfigPath @ [''Aliases'']) = Inr (JArr [JStr s])) \<and>
         (\<forall>xs. config p [''domain''] = JArr xs \<longrightarrow>
            getPath out (distributionConfigPath @ [''Aliases'']) = Inr (JArr xs))"
proof -
  from assms obtain dc dc' where run: "runRules (rules p) dc = Inr dc'"
    and get: "\<And>bs. getPath out (distributionConfigPath @ bs) = getPath dc' bs"
    and has: "\<And>bs. bs \<noteq> [] \<Longrightarrow> hasPath out (distributionConfigPath @ bs) = hasPath dc' bs"
    by (rule prepareResources_paths) blast
  from run obtain z where pre: "runRules (take 2 (rules p)) dc = Inr z"
    and post: "runRules (drop 2 (rules p)) z = Inr dc'"
    by (rule runRules_split)
  from pre obtain x1 where dom: "prepareDomain p x1 = Inr z"
    by (auto simp: rules_take elim!: thenE_InrE)
  have "keeps (runRules (drop 2 (rules p))) [''Aliases'']"
    by (rule keeps_runRules) (auto simp: rules_def path_simps intro!: keeps_rules)
  with post have same: "getPath dc' [''Aliases''] = getPath z [''Aliases'']"
    "hasPath dc' [''Aliases''] = hasPath z [''Aliases'']"
    by (simp_all add: keeps_def)
  show ?thesis
    using effect_prepareDomain(1,2) [OF dom] same
    by (auto simp: get has isArray_def)
qed

theorem aliases_follow_domain_witness:
  "\<exists>out. prepareResources (sample_plugin [(''domain'', JStr ''example.com'')]) sample_resources = Inr out \<and>
     config (sample_plugin [(''domain'', JStr ''example.com'')]) [''domain''] = JStr ''example.com'' \<and>
     getPath out (distributionConfigPath @ [''Aliases'']) = Inr (JArr [JStr ''example.com''])"
proof -
  let ?p = "sample_plugin [(''domain'', JStr ''example.com'')]"
  have "\<exists>out. prepareResources ?p sample_resources = Inr out"
    by (simp add: eval_defs)
  then obtain out where out: "prepareResources ?p sample_resources = Inr out" ..
  have c: "config ?p [''domain''] = JStr ''example.com''"
    by (simp add: config_def sample_simps lookup_def)
  with aliases_follow_domain [OF out] out show ?thesis by auto
qed

section \<open>C7: the origin path\<close>

text \<open>
  C7. Whenever \<open>prepareResources\<close> returns: if \<open>httpApi\<close> is \<open>true\<close>, the output's
  \<open>Origins[0].OriginPath\<close> is the empty string; if \<open>httpApi\<close> is absent or \<open>false\<close>, it
  is \<open>/\<close> followed by the stage name.
\<close>

theorem originPath_follows_httpApi:
  assumes "prepareResources p resources = Inr out"
  shows "(config p [''httpApi''] = JBool True \<longrightarrow>
            getPath out (distributionConfigPath @ [''Origins'', ''0'', ''OriginPath'']) = Inr (JStr [])) \<and>
         (config p [''httpApi''] = JUndef \<or> config p [''httpApi''] = JBool False \<longrightarrow>
            getPath out (distributionConfigPath @ [''Origins'', ''0'', ''OriginPath'']) =
              Inr (JStr (''/'' @ stage p)))"
proof -
  let ?bs = "[''Origins'', ''0'', ''OriginPath'']"
  from assms obtain dc dc' where run: "runRules (rules p) dc = Inr dc'"
    and get: "\<And>bs. getPath out (distributionConfigPath @ bs) = getPath dc' bs"
    by (rule prepareResources_paths) blast
  from run obtain x z where "(rules p ! 3) x = Inr z"
    and post: "runRules (drop (Suc 3) (rules p)) z = Inr dc'"
    by (rule rules_at [where n = 3]) simp
  then have r: "prepareOrigins p x = Inr z" by (simp add: rules_def)
  have "keeps (runRules (drop (Suc 3) (rules p))) ?bs"
    by (rule keeps_runRules) (auto simp: rules_def path_simps intro!: keeps_rules)
  with post have "getPath dc' ?bs = getPath z ?bs" by (simp add: keeps_def)
  with effect_prepareOrigins(1) [OF r] have "getPath out (distributionConfigPath @ ?bs) = Inr (originPath p)"
    by (simp add: get)
  then show ?thesis
    by (auto simp: originPath_def getConfig_config truthy_def)
qed

theorem originPath_follows_httpApi_witness:
  "\<exists>out. prepareResources (sample_plugin []) sample_resources = Inr out \<and>
     config (sample_plugin []) [''httpApi''] = JUndef \<and>
     getPath out (distributionConfigPath @ [''Origins'', ''0'', ''OriginPath'']) = Inr (JStr ''/prod'')"
proof -
  have "\<exists>out. prepareResources (sample_plugin []) sample_resources = Inr out"
    by (simp add: eval_defs)
  then obtain out where out: "prepareResources (sample_plugin []) sample_resources = Inr out" ..
  have c: "config (sample_plugin []) [''httpApi''] = JUndef"
    by (simp add: config_def sample_simps lookup_def)
  with originPath_follows_httpApi [OF out] out show ?thesis by (auto simp: sample_simps)
qed

section \<open>C8: optional blocks are whole or absent\<close>

text \<open>
  C8. Whenever \<open>prepareResources\<close> returns: when \<open>logging.bucket\<close> is absent the
  distribution config of the output has no \<open>Logging\<close> key; a \<open>Logging\<close> block that is
  present has both a \<open>Bucket\<close> and a \<open>Prefix\<close>, holding the configured bucket and the
  configured prefix (or the empty string); and a \<open>ViewerCertificate\<close> block that is
  present has its \<open>AcmCertificateArn\<close>.
\<close>

theorem optional_blocks_whole_or_absent:
  assumes "prepareResources p resources = Inr out"
  shows "(config p [''logging'', ''bucket''] = JUndef \<longrightarrow>
            \<not> hasPath out (distributionConfigPath @ [''Logging''])) \<and>
         (\<not> hasPath out (distributionConfigPath @ [''Logging'']) \<or>
            hasPath out (distributionConfigPath @ [''Logging'', ''Bucket'']) \<and>
            hasPath out (distributionConfigPath @ [''Logging'', ''Prefix'']) \<and>
            getPath out (distributionConfigPath @ [''Logging'', ''Bucket'']) =
              Inr (config p [''logging'', ''bucket'']) \<and>
            getPath out (distributionConfigPath @ [''Logging'', ''Prefix'']) =
              Inr (getConfig p [''logging'', ''prefix''] (JStr []))) \<and>
         (\<not> hasPath out (distributionConfigPath @ [''ViewerCertificate'']) \<or>
            hasPath out (distributionConfigPath @ [''ViewerCertificate'', ''AcmCertificateArn'']) \<and>
            getPath out (distributionConfigPath @ [''ViewerCertificate'', ''AcmCertificateArn'']) =
              Inr (config p [''certificate'']))"
proof -
  from assms obtain dc dc' where run: "runRules (rules p) dc = Inr dc'"
    and get: "\<And>bs. getPath out (distributionConfigPath @ bs) = getPath dc' bs"
    and has: "\<And>bs. bs \<noteq> [] \<Longrightarrow> hasPath out (distributionConfigPath @ bs) = hasPath dc' bs"
    by (rule prepareResources_paths) blast
  \<comment> \<open>the Logging block\<close>
  from run obtain x z where "(rules p ! 0) x = Inr z"
    and post: "runRules (drop (Suc 0) (rules p)) z = Inr dc'"
    by (rule rules_at [where n = 0]) simp
  then have r: "prepareLogging p x = Inr z" by (simp add: rules_def)
  have k: "keeps (runRules (drop (Suc 0) (rules p))) bs"
    if "bs \<in> {[''Logging''], [''Logging'', ''Bucket''], [''Logging'', ''Prefix'']}" for bs
    using that by (intro keeps_runRules) (auto simp: rules_def path_simps intro!: keeps_rules)
  have same: "getPath dc' bs = getPath z bs \<and> hasPath dc' bs = hasPath z bs"
    if "bs \<in> {[''Logging''], [''Logging'', ''Bucket''], [''Logging'', ''Prefix'']}" for bs
    using k [OF that] post by (simp add: keeps_def)
  have logging: "(config p [''logging'', ''bucket''] = JUndef \<longrightarrow> \<not> hasPath dc' [''Logging'']) \<and>
         (\<not> hasPath dc' [''Logging''] \<or>
            hasPath dc' [''Logging'', ''Bucket''] \<and> hasPath dc' [''Logging'', ''Prefix''] \<and>
            getPath dc' [''Logging'', ''Bucket''] = Inr (config p [''logging'', ''bucket'']) \<and>
            getPath dc' [''Logging'', ''Prefix''] = Inr (getConfig p [''logging'', ''prefix''] (JStr [])))"
    using effect_prepareLogging [OF r] same by auto
  \<comment> \<open>the ViewerCertificate block\<close>
  have certificate: "\<not> hasPath dc' [''ViewerCertificate''] \<or>
      hasPath dc' [''ViewerCertificate'', ''AcmCertificateArn''] \<and>
      getPath dc' [''ViewerCertificate'', ''AcmCertificateArn''] = Inr (config p [''certificate''])"
    using certificate_block [OF run] by blast
  from logging certificate show ?thesis by (simp add: get has)
qed

theorem optional_blocks_whole_or_absent_witness:
  "\<exists>out. prepareResources (sample_plugin [(''logging'', JObj [(''bucket'', JStr ''logs'')])])
            sample_resources = Inr out \<and>
     hasPath out (distributionConfigPath @ [''Logging'']) \<and>
     hasPath out (distributionConfigPath @ [''Logging'', ''Bucket'']) \<and>
     hasPath out (distributionConfigPath @ [''Logging'', ''Prefix'']) \<and>
     getPath out (distributionConfigPath @ [''Logging'', ''Bucket'']) = Inr (JStr ''logs'') \<and>
     getPath out (distributionConfigPath @ [''Logging'', ''Prefix'']) = Inr (JStr []) \<and>
     \<not> hasPath out (distributionConfigPath @ [''ViewerCertificate''])"
proof -
  let ?p = "sample_plugin [(''logging'', JObj [(''bucket'', JStr ''logs'')])]"
  have "\<exists>out. prepareResources ?p sample_resources = Inr out \<and>
          hasPath out (distributionConfigPath @ [''Logging'']) \<and>
          \<not> hasPath out (distributionConfigPath @ [''ViewerCertificate''])"
    by (simp add: eval_defs hasKey_def)
  then obtain out where out: "prepareResources ?p sample_resources = Inr out"
    and l: "hasPath out (distributionConfigPath @ [''Logging''])"
    and v: "\<not> hasPath out (distributionConfigPath @ [''ViewerCertificate''])" by blast
  have c: "config ?p [''logging'', ''bucket''] = JStr ''logs''"
    "getConfig ?p [''logging'', ''prefix''] (JStr []) = JStr []"
    by (simp_all add: config_def getConfig_def lodash_get_def sample_simps lookup_def)
  from optional_blocks_whole_or_absent [OF out] out l v show ?thesis by (auto simp: c)
qed

section \<open>C9: an explicit null\<close>

text \<open>
  C9. Let \<open>logging.bucket\<close>, \<open>domain\<close>, \<open>certificate\<close> or \<open>waf\<close> be \<open>null\<close> in the
  configuration map of one host and absent from that of another, the two hosts agreeing
  on every other field that the pipeline reads, on the stage and on the API gateway name.
  Then \<open>prepareResources\<close> does the same on both, and so does
  \<open>createDeploymentArtifacts\<close> when the hosts also agree on the tags and the compiled
  template. Both runs take the deletion branch: when they return, the distribution config
  of the output has no \<open>Logging\<close>, no \<open>Aliases\<close>, no \<open>ViewerCertificate\<close> or no
  \<open>WebACLId\<close>, according to which of the four fields it is, whatever the base template
  holds there.
\<close>

theorem explicit_null_is_absent:
  assumes "f \<in> {[''logging'', ''bucket''], [''domain''], [''certificate''], [''waf'']}"
    and "config p f = JNull" and "config q f = JUndef"
    and "\<forall>g \<in> fst ` set configReads. g \<noteq> f \<longrightarrow> config q g = config p g"
    and "stage q = stage p" and "apiGatewayName q = apiGatewayName p"
  shows "prepareResources q resources = prepareResources p resources \<and>
         (tags q = tags p \<and> compiledCloudFormationTemplate q = compiledCloudFormationTemplate p \<longrightarrow>
            createDeploymentArtifacts q resources = createDeploymentArtifacts p resources) \<and>
         (\<forall>out. prepareResources p resources = Inr out \<or> prepareResources q resources = Inr out \<longrightarrow>
            (f = [''logging'', ''bucket''] \<longrightarrow> \<not> hasPath out (distributionConfigPath @ [''Logging''])) \<and>
            (f = [''domain''] \<longrightarrow> \<not> hasPath out (distributionConfigPath @ [''Aliases''])) \<and>
            (f = [''certificate''] \<longrightarrow>
               \<not> hasPath out (distributionConfigPath @ [''ViewerCertificate''])) \<and>
            (f = [''waf''] \<longrightarrow> \<not> hasPath out (distributionConfigPath @ [''WebACLId''])))"
proof -
  have reads: "getConfig q g d = getConfig p g d" if "(g, d) \<in> set configReads" for g d
  proof (cases "g = f")
    case True
    with that assms(1) have "d = JNull" by (auto simp: configReads_def)
    with True null_default [OF assms(2,3)] show ?thesis by simp
  next
    case False
    with that assms(4) have "config q g = config p g" by force
    then show ?thesis by (rule same_config)
  qed
  then have "rules q = rules p"
    using assms(5,6) by (intro rules_cong) auto
  then have same: "prepareResources q resources = prepareResources p resources"
    by (simp add: prepareResources_def)
  have gone: "(f = [''logging'', ''bucket''] \<longrightarrow> \<not> hasPath out (distributionConfigPath @ [''Logging''])) \<and>
      (f = [''domain''] \<longrightarrow> \<not> hasPath out (distributionConfigPath @ [''Aliases''])) \<and>
      (f = [''certificate''] \<longrightarrow> \<not> hasPath out (distributionConfigPath @ [''ViewerCertificate''])) \<and>
      (f = [''waf''] \<longrightarrow> \<not> hasPath out (distributionConfigPath @ [''WebACLId'']))"
    if out: "prepareResources p resources = Inr out" for out
  proof -
    from out obtain dc dc' where run: "runRules (rules p) dc = Inr dc'"
      and has: "\<And>bs. bs \<noteq> [] \<Longrightarrow> hasPath out (distributionConfigPath @ bs) = hasPath dc' bs"
      by (rule prepareResources_paths) blast
    from null_or_absent_deletes [OF run] certificate_block(1) [OF run] assms(2)
    show ?thesis by (auto simp: has)
  qed
  from same gone show ?thesis
    by (auto simp: createDeploymentArtifacts_def cong: if_cong)
qed


theorem explicit_null_is_absent_witness:
  "hasPath sample_resources_with_waf (distributionConfigPath @ [''Logging'']) \<and>
   hasPath sample_resources_with_waf (distributionConfigPath @ [''Aliases'']) \<and>
   hasPath sample_resources_with_waf (distributionConfigPath @ [''ViewerCertificate'']) \<and>
   hasPath sample_resources_with_waf (distributionConfigPath @ [''WebACLId'']) \<and>
   (\<exists>out. prepareResources (sample_plugin [(''logging'', JObj [(''bucket'', JNull)])])
             sample_resources_with_waf = Inr out \<and>
      prepareResources (sample_plugin []) sample_resources_with_waf = Inr out \<and>
      \<not> hasPath out (distributionConfigPath @ [''Logging''])) \<and>
   (\<exists>out. prepareResources (sample_plugin [(''domain'', JNull)]) sample_resources_with_waf = Inr out \<and>
      prepareResources (sample_plugin []) sample_resources_with_waf = Inr out \<and>
      \<not> hasPath out (distributionConfigPath @ [''Aliases''])) \<and>
   (\<exists>out. prepareResources (sample_plugin [(''certificate'', JNull)]) sample_resources_with_waf =
             Inr out \<and>
      prepareResources (sample_plugin []) sample_resources_with_waf = Inr out \<and>
      \<not> hasPath out (distributionConfigPath @ [''ViewerCertificate''])) \<and>
   (\<exists>out. prepareResources (sample_plugin [(''waf'', JNull)]) sample_resources_with_waf = Inr out \<and>
      prepareResources (sample_plugin []) sample_resources_with_waf = Inr out \<and>
      \<not> hasPath out (distributionConfigPath @ [''WebACLId''])) \<and>
   createDeploymentArtifacts (sample_plugin []) sample_resources_with_waf =
     createDeploymentArtifacts (sample_plugin [(''waf'', JNull)]) sample_resources_with_waf"
proof -
  let ?q = "sample_plugin []"
  let ?t = "sample_resources_with_waf"
  have t: "hasPath ?t (distributionConfigPath @ [''Logging''])"
    "hasPath ?t (distributionConfigPath @ [''Aliases''])"
    "hasPath ?t (distributionConfigPath @ [''ViewerCertificate''])"
    "hasPath ?t (distributionConfigPath @ [''WebACLId''])"
    by (simp_all add: sample_resources_with_waf_def eval_defs hasKey_def)
  have "\<exists>out. prepareResources ?q ?t = Inr out"
    by (simp add: sample_resources_with_waf_def eval_defs)
  then obtain out where out: "prepareResources ?q ?t = Inr out" ..
  have same: "stage ?q = stage (sample_plugin cfg)"
    "apiGatewayName ?q = apiGatewayName (sample_plugin cfg)" "tags ?q = tags (sample_plugin cfg)"
    "compiledCloudFormationTemplate ?q = compiledCloudFormationTemplate (sample_plugin cfg)" for cfg
    by (simp_all add: sample_simps)
  have logging: "prepareResources (sample_plugin [(''logging'', JObj [(''bucket'', JNull)])]) ?t = Inr out \<and>
      \<not> hasPath out (distributionConfigPath @ [''Logging''])"
    using explicit_null_is_absent [of "[''logging'', ''bucket'']"
        "sample_plugin [(''logging'', JObj [(''bucket'', JNull)])]" ?q ?t] out same
    by (simp add: configReads_def config_def sample_simps lookup_def)
  have domain: "prepareResources (sample_plugin [(''domain'', JNull)]) ?t = Inr out \<and>
      \<not> hasPath out (distributionConfigPath @ [''Aliases''])"
    using explicit_null_is_absent [of "[''domain'']" "sample_plugin [(''domain'', JNull)]" ?q ?t]
      out same
    by (simp add: configReads_def config_def sample_simps lookup_def)
  have certificate: "prepareResources (sample_plugin [(''certificate'', JNull)]) ?t = Inr out \<and>
      \<not> hasPath out (distributionConfigPath @ [''ViewerCertificate''])"
    using explicit_null_is_absent [of "[''certificate'']" "sample_plugin [(''certificate'', JNull)]" ?q ?t]
      out same
    by (simp add: configReads_def config_def sample_simps lookup_def)
  have waf: "prepareResources (sample_plugin [(''waf'', JNull)]) ?t = Inr out \<and>
      \<not> hasPath out (distributionConfigPath @ [''WebACLId'']) \<and>
      createDeploymentArtifacts ?q ?t = createDeploymentArtifacts (sample_plugin [(''waf'', JNull)]) ?t"
    using explicit_null_is_absent [of "[''waf'']" "sample_plugin [(''waf'', JNull)]" ?q ?t]
      out same
    by (simp add: configReads_def config_def sample_simps lookup_def)
  from t out logging domain certificate waf show ?thesis by blast
qed

section \<open>C10: the fields that are always overwritten, and the frame\<close>

text \<open>
  C10. Whenever \<open>prepareResources\<close> returns, the output's \<open>PriceClass\<close>, \<open>Comment\<close>,
  \<open>Origins[0].DomainName\<close>, \<open>Origins[0].OriginPath\<close>, \<open>Origins[0].OriginCustomHeaders\<close>,
  \<open>DefaultCacheBehavior.Compress\<close>, \<open>ForwardedValues.Cookies.Forward\<close>,
  \<open>ForwardedValues.Headers\<close> and \<open>ForwardedValues.QueryString\<close> are given by the
  configuration map, the stage and the API gateway name alone, whatever the base template
  holds there. Every place of the distribution config that diverges from all the places
  the rules write (\<open>written\<close>), and every place of the template outside the distribution
  config, reads in the output as it does in the base template.

  Every other place is changed only by the rule that names it. Each of the fourteen
  rules, run on any distribution config, keeps every place that diverges from the places
  it names under the given configuration (\<open>rulePlaces\<close>). So a place that diverges from
  the places that all the rules name under the given configuration reads in the output as
  it does in the base template; and a place that diverges from the places named by the
  rules other than the \<open>n\<close>-th reaches the \<open>n\<close>-th rule as the base template has it and
  reads in the output as the \<open>n\<close>-th rule left it.
\<close>

theorem overwritten_fields_and_frame:
  assumes "prepareResources p resources = Inr out"
  shows "getPath out (distributionConfigPath @ [''PriceClass'']) =
           Inr (getConfig p [''priceClass''] (JStr ''PriceClass_All'')) \<and>
         getPath out (distributionConfigPath @ [''Comment'']) =
           Inr (JStr (''Serverless Managed '' @ apiGatewayName p)) \<and>
         getPath out (distributionConfigPath @ [''Origins'', ''0'', ''DomainName'']) =
           Inr (domainName (getConfig p [''httpApi''] (JBool False))) \<and>
         getPath out (distributionConfigPath @ [''Origins'', ''0'', ''OriginPath'']) =
           Inr (originPath p) \<and>
         (\<exists>hs. getConfig p [''originCustomHeaders''] (JArr []) = JArr hs \<and>
            getPath out (distributionConfigPath @ [''Origins'', ''0'', ''OriginCustomHeaders'']) =
              Inr (JArr (map customHeader hs))) \<and>
         getPath out (distributionConfigPath @ [''DefaultCacheBehavior'', ''Compress'']) =
           Inr (JBool (config p [''compress''] = JBool True)) \<and>
         getPath out (distributionConfigPath @
             [''DefaultCacheBehavior'', ''ForwardedValues'', ''Cookies'', ''Forward'']) =
           Inr (cookiesForward p) \<and>
         getPath out (distributionConfigPath @
             [''DefaultCacheBehavior'', ''ForwardedValues'', ''Headers'']) =
           Inr (forwardedHeaders p) \<and>
         getPath out (distributionConfigPath @
             [''DefaultCacheBehavior'', ''ForwardedValues'', ''QueryString'']) =
           Inr (forwardQueryString p) \<and>
         (\<forall>bs. list_all (\<lambda>ks. diverge ks bs) written \<longrightarrow>
            getPath out (distributionConfigPath @ bs) = getPath resources (distributionConfigPath @ bs) \<and>
            hasPath out (distributionConfigPath @ bs) = hasPath resources (distributionConfigPath @ bs)) \<and>
         (\<forall>bs. diverge distributionConfigPath bs \<longrightarrow>
            getPath out bs = getPath resources bs \<and> hasPath out bs = hasPath resources bs) \<and>
         (\<forall>n<14. \<forall>bs. list_all (\<lambda>ks. diverge ks bs) (rulePlaces p ! n) \<longrightarrow> keeps (rules p ! n) bs) \<and>
         (\<forall>bs. list_all (\<lambda>ks. diverge ks bs) (concat (rulePlaces p)) \<longrightarrow>
            getPath out (distributionConfigPath @ bs) = getPath resources (distributionConfigPath @ bs) \<and>
            hasPath out (distributionConfigPath @ bs) = hasPath resources (distributionConfigPath @ bs)) \<and>
         (\<forall>n<14. \<forall>bs.
            list_all (\<lambda>ks. diverge ks bs)
              (concat (take n (rulePlaces p) @ drop (Suc n) (rulePlaces p))) \<longrightarrow>
            (\<exists>x y. (rules p ! n) x = Inr y \<and>
               getPath x bs = getPath resources (distributionConfigPath @ bs) \<and>
               hasPath x bs = hasPath resources (distributionConfigPath @ bs) \<and>
               getPath out (distributionConfigPath @ bs) = getPath y bs \<and>
               hasPath out (distributionConfigPath @ bs) = hasPath y bs))"
proof -
  from assms obtain dc dc' where run: "runRules (rules p) dc = Inr dc'"
    and get0: "\<And>bs. getPath resources (distributionConfigPath @ bs) = getPath dc bs"
    and has0: "\<And>bs. bs \<noteq> [] \<Longrightarrow> hasPath resources (distributionConfigPath @ bs) = hasPath dc bs"
    and get: "\<And>bs. getPath out (distributionConfigPath @ bs) = getPath dc' bs"
    and has: "\<And>bs. bs \<noteq> [] \<Longrightarrow> hasPath out (distributionConfigPath @ bs) = hasPath dc' bs"
    and stored: "setPath resources distributionConfigPath dc' = Inr out"
    by (rule prepareResources_paths) blast
  have priceClass: "getPath dc' [''PriceClass''] =
      Inr (getConfig p [''priceClass''] (JStr ''PriceClass_All''))"
  proof (rule last_write [OF run, where n = 2])
    show "keeps (runRules (drop (Suc 2) (rules p))) [''PriceClass'']"
      by (rule keeps_runRules) (auto simp: rules_def path_simps intro!: keeps_rules)
  qed (simp_all add: rules_def effect_preparePriceClass)
  have comment: "getPath dc' [''Comment''] = Inr (JStr (''Serverless Managed '' @ apiGatewayName p))"
  proof (rule last_write [OF run, where n = 9])
    show "keeps (runRules (drop (Suc 9) (rules p))) [''Comment'']"
      by (rule keeps_runRules) (auto simp: rules_def path_simps intro!: keeps_rules)
  qed (simp_all add: rules_def effect_prepareComment)
  have domain: "getPath dc' [''Origins'', ''0'', ''DomainName''] =
      Inr (domainName (getConfig p [''httpApi''] (JBool False)))"
  proof (rule last_write [OF run, where n = 1])
    show "keeps (runRules (drop (Suc 1) (rules p))) [''Origins'', ''0'', ''DomainName'']"
      by (rule keeps_runRules) (auto simp: rules_def path_simps intro!: keeps_rules)
  qed (simp_all add: rules_def effect_prepareDomain(3))
  have path: "getPath dc' [''Origins'', ''0'', ''OriginPath''] = Inr (originPath p)"
  proof (rule last_write [OF run, where n = 3])
    show "keeps (runRules (drop (Suc 3) (rules p))) [''Origins'', ''0'', ''OriginPath'']"
      by (rule keeps_runRules) (auto simp: rules_def path_simps intro!: keeps_rules)
  qed (simp_all add: rules_def effect_prepareOrigins(1))
  have headers: "\<exists>hs. getConfig p [''originCustomHeaders''] (JArr []) = JArr hs \<and>
      getPath dc' [''Origins'', ''0'', ''OriginCustomHeaders''] = Inr (JArr (map customHeader hs))"
  proof -
    from run obtain x z where "(rules p ! 3) x = Inr z"
      and post: "runRules (drop (Suc 3) (rules p)) z = Inr dc'"
      by (rule rules_at [where n = 3]) simp
    then have r: "prepareOrigins p x = Inr z" by (simp add: rules_def)
    have "keeps (runRules (drop (Suc 3) (rules p))) [''Origins'', ''0'', ''OriginCustomHeaders'']"
      by (rule keeps_runRules) (auto simp: rules_def path_simps intro!: keeps_rules)
    with post effect_prepareOrigins(2) [OF r] show ?thesis by (simp add: keeps_def)
  qed
  have compress: "getPath dc' [''DefaultCacheBehavior'', ''Compress''] =
      Inr (JBool (config p [''compress''] = JBool True))"
  proof (rule last_write [OF run, where n = 12])
    show "keeps (runRules (drop (Suc 12) (rules p))) [''DefaultCacheBehavior'', ''Compress'']"
      by (rule keeps_runRules) (auto simp: rules_def path_simps intro!: keeps_rules)
  qed (simp_all add: rules_def effect_prepareCompress)
  have cookies: "getPath dc' [''DefaultCacheBehavior'', ''ForwardedValues'', ''Cookies'', ''Forward''] =
      Inr (cookiesForward p)"
  proof (rule last_write [OF run, where n = 4])
    show "keeps (runRules (drop (Suc 4) (rules p)))
            [''DefaultCacheBehavior'', ''ForwardedValues'', ''Cookies'', ''Forward'']"
      by (rule keeps_runRules) (auto simp: rules_def path_simps intro!: keeps_rules)
  qed (simp_all add: rules_def effect_prepareCookies)
  have fheaders: "getPath dc' [''DefaultCacheBehavior'', ''ForwardedValues'', ''Headers''] =
      Inr (forwardedHeaders p)"
  proof (rule last_write [OF run, where n = 5])
    show "keeps (runRules (drop (Suc 5) (rules p)))
            [''DefaultCacheBehavior'', ''ForwardedValues'', ''Headers'']"
      by (rule keeps_runRules) (auto simp: rules_def path_simps intro!: keeps_rules)
  qed (simp_all add: rules_def effect_prepareHeaders)
  have query: "getPath dc' [''DefaultCacheBehavior'', ''ForwardedValues'', ''QueryString''] =
      Inr (forwardQueryString p)"
  proof (rule last_write [OF run, where n = 8])
    show "keeps (runRules (drop (Suc 8) (rules p)))
            [''DefaultCacheBehavior'', ''ForwardedValues'', ''QueryString'']"
      by (rule keeps_runRules) (auto simp: rules_def path_simps intro!: keeps_rules)
  qed (simp_all add: rules_def effect_prepareQueryString)
  have inside: "getPath dc' bs = getPath dc bs \<and> hasPath dc' bs = hasPath dc bs"
    if "list_all (\<lambda>ks. diverge ks bs) written" for bs
    using rules_keep_unwritten [OF that, of p] run by (simp add: keeps_def)
  have nonempty: "bs \<noteq> []" if "list_all (\<lambda>ks. diverge ks bs) written" for bs
    using that by (auto simp: written_def dest: diverge_nonempty)
  have outside: "getPath out bs = getPath resources bs \<and> hasPath out bs = hasPath resources bs"
    if "diverge distributionConfigPath bs" for bs
    using setPath_frame [OF stored that] setPath_hasPath_frame [OF stored that] by simp
  have each: "keeps (rules p ! n) bs"
    if "n < 14" "list_all (\<lambda>ks. diverge ks bs) (rulePlaces p ! n)" for n bs
    using that by (rule rule_keeps_other_places)
  have inside': "getPath dc' bs = getPath dc bs \<and> hasPath dc' bs = hasPath dc bs \<and> bs \<noteq> []"
    if d: "list_all (\<lambda>ks. diverge ks bs) (concat (rulePlaces p))" for bs
  proof -
    have "keeps (runRules (rules p)) bs"
      by (rule rules_keep_other_places [OF _ _ d]) (simp_all add: each)
    moreover have "[''PriceClass''] \<in> set (concat (rulePlaces p))"
      by (simp add: rulePlaces_def)
    with d have "diverge [''PriceClass''] bs" by (simp add: list_all_iff del: set_concat)
    ultimately show ?thesis using run by (auto simp: keeps_def)
  qed
  have only: "\<exists>x y. (rules p ! n) x = Inr y \<and> getPath x bs = getPath dc bs \<and>
      hasPath x bs = hasPath dc bs \<and> getPath dc' bs = getPath y bs \<and>
      hasPath dc' bs = hasPath y bs \<and> bs \<noteq> []"
    if n: "n < 14"
      and d: "list_all (\<lambda>ks. diverge ks bs)
                (concat (take n (rulePlaces p) @ drop (Suc n) (rulePlaces p)))" for n bs
  proof -
    from run n obtain x z where pre: "runRules (take n (rules p)) dc = Inr x"
      and mid: "(rules p ! n) x = Inr z"
      and post: "runRules (drop (Suc n) (rules p)) z = Inr dc'"
      by (rule rules_at)
    from d have d1: "list_all (\<lambda>ks. diverge ks bs) (concat (take n (rulePlaces p)))"
      and d2: "list_all (\<lambda>ks. diverge ks bs) (concat (drop (Suc n) (rulePlaces p)))"
      by simp_all
    have "keeps (runRules (take n (rules p))) bs"
      by (rule rules_keep_other_places [OF _ _ d1]) (simp_all add: each)
    with pre have before: "getPath x bs = getPath dc bs" "hasPath x bs = hasPath dc bs"
      by (simp_all add: keeps_def)
    have "keeps (runRules (drop (Suc n) (rules p))) bs"
      by (rule rules_keep_other_places [OF _ _ d2]) (simp_all add: each)
    with post have after: "getPath dc' bs = getPath z bs" "hasPath dc' bs = hasPath z bs"
      by (simp_all add: keeps_def)
    let ?others = "take n (rulePlaces p) @ drop (Suc n) (rulePlaces p)"
    have "\<exists>k. [k] \<in> set (concat ?others)"
    proof (cases "n = 2")
      case True
      have "rulePlaces p ! 9 \<in> set ?others" by (rule nth_in_others) (simp_all add: True)
      moreover have "[''Comment''] \<in> set (rulePlaces p ! 9)" by (simp add: rulePlaces_def)
      ultimately show ?thesis unfolding set_concat by blast
    next
      case False
      then have "rulePlaces p ! 2 \<in> set ?others" by (intro nth_in_others) simp_all
      moreover have "[''PriceClass''] \<in> set (rulePlaces p ! 2)" by (simp add: rulePlaces_def)
      ultimately show ?thesis unfolding set_concat by blast
    qed
    with d have "\<exists>k. diverge [k] bs"
      unfolding list_all_iff by blast
    then have "bs \<noteq> []" by (auto dest: diverge_nonempty)
    with mid before after show ?thesis by blast
  qed
  have a: "getPath out (distributionConfigPath @ [''PriceClass'']) =
           Inr (getConfig p [''priceClass''] (JStr ''PriceClass_All'')) \<and>
         getPath out (distributionConfigPath @ [''Comment'']) =
           Inr (JStr (''Serverless Managed '' @ apiGatewayName p)) \<and>
         getPath out (distributionConfigPath @ [''Origins'', ''0'', ''DomainName'']) =
           Inr (domainName (getConfig p [''httpApi''] (JBool False))) \<and>
         getPath out (distributionConfigPath @ [''Origins'', ''0'', ''OriginPath'']) =
           Inr (originPath p) \<and>
         (\<exists>hs. getConfig p [''originCustomHeaders''] (JArr []) = JArr hs \<and>
            getPath out (distributionConfigPath @ [''Origins'', ''0'', ''OriginCustomHeaders'']) =
              Inr (JArr (map customHeader hs))) \<and>
         getPath out (distributionConfigPath @ [''DefaultCacheBehavior'', ''Compress'']) =
           Inr (JBool (config p [''compress''] = JBool True)) \<and>
         getPath out (distributionConfigPath @
             [''DefaultCacheBehavior'', ''ForwardedValues'', ''Cookies'', ''Forward'']) =
           Inr (cookiesForward p) \<and>
         getPath out (distributionConfigPath @
             [''DefaultCacheBehavior'', ''ForwardedValues'', ''Headers'']) =
           Inr (forwardedHeaders p) \<and>
         getPath out (distributionConfigPath @
             [''DefaultCacheBehavior'', ''ForwardedValues'', ''QueryString'']) =
           Inr (forwardQueryString p) \<and>
         (\<forall>bs. list_all (\<lambda>ks. diverge ks bs) written \<longrightarrow>
            getPath out (distributionConfigPath @ bs) = getPath resources (distributionConfigPath @ bs) \<and>
            hasPath out (distributionConfigPath @ bs) = hasPath resources (distributionConfigPath @ bs)) \<and>
         (\<forall>bs. diverge distributionConfigPath bs \<longrightarrow>
            getPath out bs = getPath resources bs \<and> hasPath out bs = hasPath resources bs)"
    using priceClass comment domain path headers compress cookies fheaders query
    by (simp add: get get0 has has0 inside nonempty outside)
  have b: "\<forall>n<14. \<forall>bs. list_all (\<lambda>ks. diverge ks bs) (rulePlaces p ! n) \<longrightarrow> keeps (rules p ! n) bs"
    using each by blast
  have c: "\<forall>bs. list_all (\<lambda>ks. diverge ks bs) (concat (rulePlaces p)) \<longrightarrow>
            getPath out (distributionConfigPath @ bs) = getPath resources (distributionConfigPath @ bs) \<and>
            hasPath out (distributionConfigPath @ bs) = hasPath resources (distributionConfigPath @ bs)"
    using inside' by (simp add: get get0 has has0)
  have d: "\<forall>n<14. \<forall>bs.
            list_all (\<lambda>ks. diverge ks bs)
              (concat (take n (rulePlaces p) @ drop (Suc n) (rulePlaces p))) \<longrightarrow>
            (\<exists>x y. (rules p ! n) x = Inr y \<and>
               getPath x bs = getPath resources (distributionConfigPath @ bs) \<and>
               hasPath x bs = hasPath resources (distributionConfigPath @ bs) \<and>
               getPath out (distributionConfigPath @ bs) = getPath y bs \<and>
               hasPath out (distributionConfigPath @ bs) = hasPath y bs)"
  proof (intro allI impI)
    fix n bs
    assume "n < (14::nat)" and "list_all (\<lambda>ks. diverge ks bs)
              (concat (take n (rulePlaces p) @ drop (Suc n) (rulePlaces p)))"
    then obtain x y where "(rules p ! n) x = Inr y" "getPath x bs = getPath dc bs"
      "hasPath x bs = hasPath dc bs" "getPath dc' bs = getPath y bs"
      "hasPath dc' bs = hasPath y bs" "bs \<noteq> []"
      using only by blast
    then show "\<exists>x y. (rules p ! n) x = Inr y \<and>
               getPath x bs = getPath resources (distributionConfigPath @ bs) \<and>
               hasPath x bs = hasPath resources (distributionConfigPath @ bs) \<and>
               getPath out (distributionConfigPath @ bs) = getPath y bs \<and>
               hasPath out (distributionConfigPath @ bs) = hasPath y bs"
      by (auto simp: get get0 has has0)
  qed
  from a b c d show ?thesis by (intro conjI) blast+
qed



theorem overwritten_fields_and_frame_witness:
  "\<exists>out. prepareResources (sample_plugin []) sample_resources = Inr out \<and>
     getPath out (distributionConfigPath @ [''PriceClass'']) = Inr (JStr ''PriceClass_All'') \<and>
     getPath out (distributionConfigPath @ [''Comment'']) = Inr (JStr ''Serverless Managed prod-api'') \<and>
     getPath out (distributionConfigPath @ [''DefaultCacheBehavior'', ''Compress'']) = Inr (JBool False) \<and>
     list_all (\<lambda>ks. diverge ks [''Origins'', ''0'', ''Id'']) written \<and>
     getPath out (distributionConfigPath @ [''Origins'', ''0'', ''Id'']) = Inr (JStr ''ApiGateway'') \<and>
     list_all (\<lambda>ks. diverge ks [''DefaultCacheBehavior'', ''MinTTL''])
       (rulePlaces (sample_plugin []) ! 12) \<and>
     (\<exists>y. prepareCompress (sample_plugin []) sample_distributionConfig = Inr y \<and>
        getPath y [''DefaultCacheBehavior'', ''MinTTL''] = Inr (JStr ''0'')) \<and>
     list_all (\<lambda>ks. diverge ks [''DefaultCacheBehavior'', ''MinTTL''])
       (concat (rulePlaces (sample_plugin []))) \<and>
     getPath out (distributionConfigPath @ [''DefaultCacheBehavior'', ''MinTTL'']) = Inr (JStr ''0'') \<and>
     list_all (\<lambda>ks. diverge ks [''DefaultCacheBehavior'', ''CachePolicyId''])
       (concat (take 7 (rulePlaces (sample_plugin [])) @ drop (Suc 7) (rulePlaces (sample_plugin [])))) \<and>
     (\<exists>x y. preparePolicies (sample_plugin []) x = Inr y \<and>
        getPath x [''DefaultCacheBehavior'', ''CachePolicyId''] = Inr (JStr ''template-policy'') \<and>
        getPath out (distributionConfigPath @ [''DefaultCacheBehavior'', ''CachePolicyId'']) =
          getPath y [''DefaultCacheBehavior'', ''CachePolicyId''])"
proof -
  let ?p = "sample_plugin []"
  have "\<exists>out. prepareResources ?p sample_resources = Inr out"
    by (simp add: eval_defs)
  then obtain out where out: "prepareResources ?p sample_resources = Inr out" ..
  have c: "getConfig ?p [''priceClass''] (JStr ''PriceClass_All'') = JStr ''PriceClass_All''"
    "config ?p [''compress''] = JUndef"
    by (simp_all add: config_def getConfig_def lodash_get_def sample_simps lookup_def)
  have d: "list_all (\<lambda>ks. diverge ks [''Origins'', ''0'', ''Id'']) written"
    by (simp add: written_def path_simps)
  have t: "getPath sample_resources (distributionConfigPath @ [''Origins'', ''0'', ''Id'']) =
      Inr (JStr ''ApiGateway'')"
    "getPath sample_resources (distributionConfigPath @ [''DefaultCacheBehavior'', ''MinTTL'']) =
      Inr (JStr ''0'')"
    "getPath sample_resources (distributionConfigPath @ [''DefaultCacheBehavior'', ''CachePolicyId'']) =
      Inr (JStr ''template-policy'')"
    "getPath sample_distributionConfig [''DefaultCacheBehavior'', ''MinTTL''] = Inr (JStr ''0'')"
    by (simp_all add: eval_defs)
  have places: "rulePlaces ?p =
     [[[''Logging'']],
      [[''Aliases''], [''Origins'', ''0'', ''DomainName'']],
      [[''PriceClass'']],
      [[''Origins'', ''0'', ''OriginCustomHeaders''], [''Origins'', ''0'', ''OriginPath'']],
      [[''DefaultCacheBehavior'', ''ForwardedValues'', ''Cookies'', ''Forward'']],
      [[''DefaultCacheBehavior'', ''ForwardedValues'', ''Headers'']],
      [],
      [],
      [[''DefaultCacheBehavior'', ''ForwardedValues'', ''QueryString'']],
      [[''Comment'']],
      [[''ViewerCertificate'']],
      [[''WebACLId'']],
      [[''DefaultCacheBehavior'', ''Compress'']],
      []]"
    by (simp add: rulePlaces_def eval_defs)
  have e: "list_all (\<lambda>ks. diverge ks [''DefaultCacheBehavior'', ''MinTTL'']) (rulePlaces ?p ! 12)"
    "list_all (\<lambda>ks. diverge ks [''DefaultCacheBehavior'', ''MinTTL'']) (concat (rulePlaces ?p))"
    "list_all (\<lambda>ks. diverge ks [''DefaultCacheBehavior'', ''CachePolicyId''])
       (concat (take 7 (rulePlaces ?p) @ drop (Suc 7) (rulePlaces ?p)))"
    by (simp_all add: places path_simps)
  have "\<exists>y. prepareCompress ?p sample_distributionConfig = Inr y"
    by (simp add: eval_defs)
  then obtain y where y: "prepareCompress ?p sample_distributionConfig = Inr y" ..
  have r: "rules ?p ! 12 = prepareCompress ?p" "rules ?p ! 7 = preparePolicies ?p"
    by (simp_all add: rules_def)
  note conclusions = overwritten_fields_and_frame [OF out]
  from conclusions d
  have old: "getPath out (distributionConfigPath @ [''PriceClass'']) = Inr (JStr ''PriceClass_All'')"
    "getPath out (distributionConfigPath @ [''Comment'']) = Inr (JStr ''Serverless Managed prod-api'')"
    "getPath out (distributionConfigPath @ [''DefaultCacheBehavior'', ''Compress'']) = Inr (JBool False)"
    "getPath out (distributionConfigPath @ [''Origins'', ''0'', ''Id'']) = Inr (JStr ''ApiGateway'')"
    by (simp_all add: c t sample_simps)
  from conclusions have each: "\<forall>n<14. \<forall>bs. list_all (\<lambda>ks. diverge ks bs) (rulePlaces ?p ! n) \<longrightarrow>
      keeps (rules ?p ! n) bs"
    by (elim conjE)
  from each [rule_format, of 12 "[''DefaultCacheBehavior'', ''MinTTL'']"] e(1) r(1)
  have "keeps (prepareCompress ?p) [''DefaultCacheBehavior'', ''MinTTL'']" by simp
  with y have compress: "getPath y [''DefaultCacheBehavior'', ''MinTTL''] = Inr (JStr ''0'')"
    by (simp add: keeps_def t)
  from conclusions e(2)
  have ttl: "getPath out (distributionConfigPath @ [''DefaultCacheBehavior'', ''MinTTL'']) = Inr (JStr ''0'')"
    by (simp add: t)
  from conclusions have only: "\<forall>n<14. \<forall>bs.
      list_all (\<lambda>ks. diverge ks bs) (concat (take n (rulePlaces ?p) @ drop (Suc n) (rulePlaces ?p))) \<longrightarrow>
      (\<exists>x y. (rules ?p ! n) x = Inr y \<and>
         getPath x bs = getPath sample_resources (distributionConfigPath @ bs) \<and>
         hasPath x bs = hasPath sample_resources (distributionConfigPath @ bs) \<and>
         getPath out (distributionConfigPath @ bs) = getPath y bs \<and>
         hasPath out (distributionConfigPath @ bs) = hasPath y bs)"
    by (elim conjE)
  from only [rule_format, of 7 "[''DefaultCacheBehavior'', ''CachePolicyId'']"] e(3)
  have "\<exists>x y. (rules ?p ! 7) x = Inr y \<and>
      getPath x [''DefaultCacheBehavior'', ''CachePolicyId''] =
        getPath sample_resources (distributionConfigPath @ [''DefaultCacheBehavior'', ''CachePolicyId'']) \<and>
      getPath out (distributionConfigPath @ [''DefaultCacheBehavior'', ''CachePolicyId'']) =
        getPath y [''DefaultCacheBehavior'', ''CachePolicyId'']"
    by simp blast
  then have policies: "\<exists>x y. preparePolicies ?p x = Inr y \<and>
        getPath x [''DefaultCacheBehavior'', ''CachePolicyId''] = Inr (JStr ''template-policy'') \<and>
        getPath out (distributionConfigPath @ [''DefaultCacheBehavior'', ''CachePolicyId'']) =
          getPath y [''DefaultCacheBehavior'', ''CachePolicyId'']"
    by (simp add: r t)
  from out old d e y compress ttl policies show ?thesis by blast
qed

end
